theory Spec2Isabelle
  imports Complex_Main "HOL-Library.Sublist" "HOL-Library.AList"
begin

text \<open>
  The four stages of the CrawlFlow pipeline, as functions on the artifacts they read and
  write: \<open>crawl_website\<close> (crawler.py), \<open>extract_and_tag\<close> with \<open>clean_text\<close>
  (extractor.py), \<open>transform_to_standard\<close> (transformer.py) and
  \<open>compute_and_save_metrics\<close> (aggregator.py). The definitions come first, the
  properties of the stages after them.
\<close>

section \<open>Python strings\<close>

text \<open>
  A Python \<open>str\<close> is a sequence of Unicode code points. Text that comes from the
  network (page bodies, hrefs, URLs) is modelled as a list of code points, so that the
  zero-width characters of \<open>clean_text\<close> are single characters, as they are in Python.
  Names the program builds itself (file names, dictionary keys, reason codes) are ASCII
  and are modelled as \<open>string\<close>.
\<close>

type_synonym pystr = "nat list"

definition ustr :: "string \<Rightarrow> pystr" where
  "ustr s = map of_char s"

text \<open>
  \<open>str.strip()\<close> without argument and the class \<open>\s\<close> of a \<open>str\<close> pattern both test a
  character with CPython's \<open>Py_UNICODE_ISSPACE\<close>: the ASCII characters 9 to 13 and 28 to
  32, and the code points with bidirectional type WS, B or S or category Zs.
\<close>

definition py_isspace :: "nat \<Rightarrow> bool" where
  "py_isspace c \<longleftrightarrow>
     (9 \<le> c \<and> c \<le> 13) \<or> (28 \<le> c \<and> c \<le> 32) \<or> c = 0x85 \<or> c = 0xA0 \<or> c = 0x1680 \<or>
     (0x2000 \<le> c \<and> c \<le> 0x200A) \<or> c = 0x2028 \<or> c = 0x2029 \<or> c = 0x202F \<or>
     c = 0x205F \<or> c = 0x3000"

definition strip :: "pystr \<Rightarrow> pystr" where
  "strip s = rev (dropWhile py_isspace (rev (dropWhile py_isspace s)))"

text \<open>\<open>re.sub(r'\s+', ' ', s)\<close>: every maximal run of whitespace becomes one space.\<close>

function sub_spaces :: "pystr \<Rightarrow> pystr" where
  "sub_spaces [] = []"
| "sub_spaces (c # cs) =
     (if py_isspace c then 32 # sub_spaces (dropWhile py_isspace cs)
      else c # sub_spaces cs)"
  by pat_completeness auto
termination
  by (relation "measure length") (auto simp: length_dropWhile_le less_Suc_eq_le)

definition zero_width :: "nat \<Rightarrow> bool" where
  "zero_width c \<longleftrightarrow> c = 0x200B \<or> c = 0x200C \<or> c = 0x200D \<or> c = 0xFEFF"

text \<open>The second substitution of \<open>clean_text\<close> deletes the characters U+200B, U+200C, U+200D and U+FEFF.\<close>

definition sub_zero_width :: "pystr \<Rightarrow> pystr" where
  "sub_zero_width s = filter (\<lambda>c. \<not> zero_width c) s"

section \<open>extractor.py: clean_text\<close>

definition clean_text :: "pystr \<Rightarrow> pystr" where
  "clean_text txt = (if txt = [] then [] else sub_zero_width (sub_spaces (strip txt)))"

text \<open>A run of whitespace longer than one character: two adjacent whitespace characters.\<close>

fun has_space_run :: "pystr \<Rightarrow> bool" where
  "has_space_run (a # b # cs) = ((py_isspace a \<and> py_isspace b) \<or> has_space_run (b # cs))"
| "has_space_run _ = False"

section \<open>Python helpers: substring test, split, join, slices, decimal numbers\<close>

text \<open>
  \<open>sub in s\<close> on strings is \<^const>\<open>sublist\<close> (a contiguous part) and \<open>s.startswith(p)\<close>
  is \<^const>\<open>prefix\<close>.

  \<open>s.split(sep)\<close> for a non-empty separator: the fields between the non-overlapping
  occurrences of \<open>sep\<close>, found from the left. (Python raises ValueError for an empty
  separator; the program only splits at \<open>'//'\<close> and \<open>'/'\<close>.)
\<close>

function split_from :: "'a list \<Rightarrow> 'a list \<Rightarrow> 'a list \<Rightarrow> 'a list list" where
  "split_from sep cur [] = [cur]"
| "split_from sep cur (c # cs) =
     (if sep \<noteq> [] \<and> prefix sep (c # cs)
      then cur # split_from sep [] (drop (length sep - 1) cs)
      else split_from sep (cur @ [c]) cs)"
  by pat_completeness auto
termination
  by (relation "measure (\<lambda>(sep, cur, s). length s)") auto

definition py_split :: "'a list \<Rightarrow> 'a list \<Rightarrow> 'a list list" where
  "py_split sep s = split_from sep [] s"

text \<open>\<open>sep.join(xs)\<close>\<close>

fun py_join :: "'a list \<Rightarrow> 'a list list \<Rightarrow> 'a list" where
  "py_join sep [] = []"
| "py_join sep [x] = x"
| "py_join sep (x # y # ys) = x @ sep @ py_join sep (y # ys)"

text \<open>\<open>xs[:n]\<close>: a negative \<open>n\<close> counts from the end.\<close>

definition slice_to :: "int \<Rightarrow> 'a list \<Rightarrow> 'a list" where
  "slice_to n xs = (if 0 \<le> n then take (nat n) xs else take (length xs - nat (- n)) xs)"

text \<open>\<open>enumerate(xs, 1)\<close>\<close>

definition enumerate1 :: "'a list \<Rightarrow> (nat \<times> 'a) list" where
  "enumerate1 xs = zip [1 ..< Suc (length xs)] xs"

definition digit :: "nat \<Rightarrow> char" where
  "digit d = ''0123456789'' ! d"

fun dec :: "nat \<Rightarrow> string" where
  "dec n = (if n < 10 then [digit n] else dec (n div 10) @ [digit (n mod 10)])"

declare dec.simps [simp del]

text \<open>\<open>str(i)\<close> and \<open>f'{i}'\<close> for an integer.\<close>

definition str_int :: "int \<Rightarrow> string" where
  "str_int i = (if i < 0 then CHR ''-'' # dec (nat (- i)) else dec (nat i))"

text \<open>\<open>f'{i:02d}'\<close> for \<open>i \<ge> 0\<close>: at least two digits, padded with a zero.\<close>

definition fmt_02d :: "nat \<Rightarrow> string" where
  "fmt_02d i = (if i < 10 then CHR ''0'' # dec i else dec i)"

section \<open>utils.py\<close>

text \<open>
  \<open>get_domain\<close>: \<open>urlparse\<close> is urllib's; the parameter \<open>parse_url\<close> gives the \<open>netloc\<close> and the
  \<open>path\<close> of its result.
\<close>

definition get_domain :: "(pystr \<Rightarrow> pystr \<times> pystr) \<Rightarrow> pystr \<Rightarrow> pystr" where
  "get_domain parse_url url =
     (case parse_url url of (netloc, path) \<Rightarrow>
        if netloc \<noteq> [] then netloc else hd (py_split (ustr ''/'') path))"

section \<open>The artifacts of one site\<close>

text \<open>
  An entry of \<open>metadata['pages']\<close>: \<open>{url, status, size_bytes, timestamp}\<close> for a fetched
  page, \<open>{status, error}\<close> for a failed homepage request.
\<close>

datatype page_entry =
  PageFetched pystr int nat string
| PageError int string

fun entry_status :: "page_entry \<Rightarrow> int" where
  "entry_status (PageFetched u s n t) = s"
| "entry_status (PageError s e) = s"

text \<open>Dictionaries keep insertion order and have one entry per key: association lists
  written with \<^const>\<open>AList.update\<close>.\<close>

record metadata =
  meta_website :: pystr
  meta_domain :: pystr
  meta_crawl_timestamp :: string
  pages :: "(string \<times> page_entry) list"

record extracted =
  ex_website :: pystr
  ex_domain :: pystr
  ex_crawl_timestamp :: string
  sections :: "(string \<times> pystr) list"

text \<open>
  The directory \<open>raw_base_dir/<domain>\<close> of a site: the HTML files by name, and the two
  JSON documents (absent until written). The file system is taken to be writable: no
  write fails.
\<close>

record site_dir =
  html_files :: "(string \<times> pystr) list"
  metadata_json :: "metadata option"
  extracted_json :: "extracted option"

definition write_html :: "string \<Rightarrow> pystr \<Rightarrow> site_dir \<Rightarrow> site_dir" where
  "write_html name html d = d\<lparr>html_files := AList.update name html (html_files d)\<rparr>"

definition case_key :: "nat \<Rightarrow> string" where
  "case_key i = ''case_study_'' @ fmt_02d i"

definition case_file :: "nat \<Rightarrow> string" where
  "case_file i = case_key i @ ''.html''"

section \<open>crawler.py\<close>

text \<open>
  What is outside the repository is a parameter:
  \<^item> \<open>request k url\<close>: the outcome of the \<open>k\<close>-th call of \<open>rate_limited_request\<close> in this run
    (counted from 0), a response with its status code and text, or an exception;
  \<^item> \<open>find_hrefs html\<close>: the \<open>href\<close> values of
    \<open>BeautifulSoup(html, 'html.parser').find_all('a', href=True)\<close> in document order,
    \<open>None\<close> when the parser raises;
  \<^item> \<open>urljoin base href\<close>: urllib's, \<open>None\<close> when it raises;
  \<^item> \<open>lower\<close>: \<open>str.lower\<close>;
  \<^item> \<open>urlparse\<close>: see \<open>get_domain\<close>.
\<close>

datatype fetch_result =
  Response int pystr
| RequestException string

record env =
  request :: "nat \<Rightarrow> pystr \<Rightarrow> fetch_result"
  find_hrefs :: "pystr \<Rightarrow> pystr list option"
  urljoin :: "pystr \<Rightarrow> pystr \<Rightarrow> pystr option"
  lower :: "pystr \<Rightarrow> pystr"
  urlparse :: "pystr \<Rightarrow> pystr \<times> pystr"

definition case_keywords :: "pystr list" where
  "case_keywords = map ustr [''case-study'', ''case-studies'', ''success-story'',
     ''success-stories'', ''customer-story'', ''customer-stories'', ''case'', ''stories'',
     ''/clients/'', ''/work/'']"

text \<open>The body of the loop over the anchors, for the stripped \<open>href\<close> and its \<open>full_url\<close>.\<close>

definition classify_link ::
  "env \<Rightarrow> pystr \<Rightarrow> int \<Rightarrow> pystr \<Rightarrow> pystr \<Rightarrow> pystr list \<times> pystr list \<Rightarrow> pystr list \<times> pystr list"
where
  "classify_link E url max_internal href full_url acc =
     (case acc of (case_study_candidates, internal_candidates) \<Rightarrow>
        if \<not> (prefix (ustr ''http://'') full_url \<or> prefix (ustr ''https://'') full_url)
        then acc
        else if sublist (ustr ''#'') href \<or> sublist (ustr ''javascript:'') (lower E href)
        then acc
        else if list_ex (\<lambda>kw. sublist kw (lower E href)) case_keywords
        then (if full_url \<notin> set case_study_candidates
              then (case_study_candidates @ [full_url], internal_candidates)
              else acc)
        else if prefix url full_url \<and> full_url \<noteq> url
        then (if int (length internal_candidates) < max_internal
              then (case_study_candidates, internal_candidates @ [full_url])
              else acc)
        else acc)"

fun discover_links ::
  "env \<Rightarrow> pystr \<Rightarrow> int \<Rightarrow> pystr list \<Rightarrow> pystr list \<times> pystr list
     \<Rightarrow> (pystr list \<times> pystr list) option"
where
  "discover_links E url max_internal [] acc = Some acc"
| "discover_links E url max_internal (a # as) acc =
     (case urljoin E url (strip a) of
        None \<Rightarrow> None
      | Some full_url \<Rightarrow>
          discover_links E url max_internal as
            (classify_link E url max_internal (strip a) full_url acc))"

definition discover :: "env \<Rightarrow> pystr \<Rightarrow> int \<Rightarrow> pystr \<Rightarrow> (pystr list \<times> pystr list) option" where
  "discover E url max_internal html =
     (case find_hrefs E html of
        None \<Rightarrow> None
      | Some hrefs \<Rightarrow> discover_links E url max_internal hrefs ([], []))"

text \<open>
  The state of the loop over the case-study candidates: the directory, the metadata, the
  URLs requested so far, and \<open>case_study_fetched\<close>. An exception in the body is caught
  and the loop goes on.
\<close>

type_synonym fetch_state = "site_dir \<times> metadata \<times> pystr list \<times> nat"

fun fetch_case_studies :: "env \<Rightarrow> string \<Rightarrow> (nat \<times> pystr) list \<Rightarrow> fetch_state \<Rightarrow> fetch_state" where
  "fetch_case_studies E timestamp [] st = st"
| "fetch_case_studies E timestamp ((i, case_url) # rest) (d, m, requested, case_study_fetched) =
     (case request E (length requested) case_url of
        Response status_code body \<Rightarrow>
          if status_code = 200
          then fetch_case_studies E timestamp rest
                 (write_html (case_file i) body d,
                  m\<lparr>pages := AList.update (case_key i)
                      (PageFetched case_url status_code (length body) timestamp) (pages m)\<rparr>,
                  requested @ [case_url],
                  Suc case_study_fetched)
          else fetch_case_studies E timestamp rest (d, m, requested @ [case_url], case_study_fetched)
      | RequestException e \<Rightarrow>
          fetch_case_studies E timestamp rest (d, m, requested @ [case_url], case_study_fetched))"

text \<open>
  The returned dictionary: \<open>status\<close> is \<open>'success'\<close> (with \<open>case_studies_found\<close>), or
  \<open>'partial'\<close> or \<open>'failed'\<close> (with \<open>reason\<close> and \<open>metadata\<close>). The paths in the returned
  dictionaries of the four stages (\<open>metadata_path\<close>, \<open>output_path\<close>) are fixed by the
  arguments and are left out.
\<close>

datatype crawl_result =
  CrawlSuccess nat
| CrawlPartial string metadata
| CrawlFailed string metadata

fun crawl_status :: "crawl_result \<Rightarrow> string" where
  "crawl_status (CrawlSuccess n) = ''success''"
| "crawl_status (CrawlPartial r m) = ''partial''"
| "crawl_status (CrawlFailed r m) = ''failed''"

fun crawl_reason :: "crawl_result \<Rightarrow> string option" where
  "crawl_reason (CrawlSuccess n) = None"
| "crawl_reason (CrawlPartial r m) = Some r"
| "crawl_reason (CrawlFailed r m) = Some r"

text \<open>
  \<open>crawl_website\<close> on the directory \<open>d\<close> of the site (created if it was missing); the
  result is the returned dictionary, the directory afterwards and the URLs requested.
\<close>

definition crawl_website ::
  "env \<Rightarrow> pystr \<Rightarrow> string \<Rightarrow> int \<Rightarrow> int \<Rightarrow> site_dir \<Rightarrow> crawl_result \<times> site_dir \<times> pystr list"
where
  "crawl_website E url timestamp max_case_studies max_internal d =
     (let metadata = \<lparr>meta_website = url, meta_domain = get_domain (urlparse E) url,
                       meta_crawl_timestamp = timestamp, pages = []\<rparr>
      in case request E 0 url of
        RequestException e \<Rightarrow>
          (CrawlFailed ''homepage_fetch_error''
             (metadata\<lparr>pages := AList.update ''homepage'' (PageError 0 e) (pages metadata)\<rparr>),
           d, [url])
      | Response status body \<Rightarrow>
          let html = (if status = 200 then body else []);
              d1 = write_html ''homepage.html'' html d;
              metadata1 = metadata\<lparr>pages := AList.update ''homepage''
                            (PageFetched url status (length html) timestamp) (pages metadata)\<rparr>
          in if status \<noteq> 200
             then (CrawlPartial (''homepage_'' @ str_int status) metadata1, d1, [url])
             else
               (case discover E url max_internal html of
                  None \<Rightarrow> (CrawlPartial ''parsing_error'' metadata1, d1, [url])
                | Some (case_study_candidates, internal_candidates) \<Rightarrow>
                    (case fetch_case_studies E timestamp
                            (enumerate1 (slice_to max_case_studies case_study_candidates))
                            (d1, metadata1, [url], 0) of
                       (d2, metadata2, requested, case_study_fetched) \<Rightarrow>
                         (CrawlSuccess case_study_fetched,
                          d2\<lparr>metadata_json := Some metadata2\<rparr>, requested))))"

section \<open>extractor.py: extract_and_tag\<close>

datatype section_type = Navbar | Footer | Homepage | CaseStudy

text \<open>
  \<open>extract_section_from_html\<close>: \<open>select html section_type\<close> is the text the BeautifulSoup
  heuristics pick (the value of \<open>text\<close> before the final \<open>clean_text\<close>).
\<close>

definition extract_section_from_html ::
  "(pystr \<Rightarrow> section_type \<Rightarrow> pystr) \<Rightarrow> pystr \<Rightarrow> section_type \<Rightarrow> pystr" where
  "extract_section_from_html select html section_type =
     (if html = [] then [] else clean_text (select html section_type))"

text \<open>The \<open>while True\<close> loop over \<open>case_study_01.html\<close>, \<open>case_study_02.html\<close>, ...\<close>

partial_function (option) scan_case_studies ::
  "(pystr \<Rightarrow> section_type \<Rightarrow> pystr) \<Rightarrow> (string \<times> pystr) list \<Rightarrow> nat \<Rightarrow> pystr list
     \<Rightarrow> pystr list option"
where
  "scan_case_studies select files i case_content =
     (case map_of files (case_file i) of
        None \<Rightarrow> Some case_content
      | Some html \<Rightarrow>
          scan_case_studies select files (Suc i)
            (if extract_section_from_html select html CaseStudy \<noteq> []
             then case_content @ [extract_section_from_html select html CaseStudy]
             else case_content))"

datatype extract_result =
  ExtractSkipped string
| ExtractSuccess "string list"

definition extract_and_tag ::
  "(pystr \<Rightarrow> section_type \<Rightarrow> pystr) \<Rightarrow> (pystr \<Rightarrow> pystr \<times> pystr) \<Rightarrow> pystr \<Rightarrow> string
     \<Rightarrow> site_dir option \<Rightarrow> (extract_result \<times> site_dir option) option"
where
  "extract_and_tag select parse_url url timestamp dir =
     (case dir of
        None \<Rightarrow> Some (ExtractSkipped ''no_raw_data'', None)
      | Some d \<Rightarrow>
          let s1 = (case map_of (html_files d) ''homepage.html'' of
                      None \<Rightarrow> []
                    | Some html \<Rightarrow>
                        AList.update ''homepage''
                          (extract_section_from_html select html Homepage) []);
              s2 = (case map_of s1 ''homepage'' of
                      None \<Rightarrow> s1
                    | Some homepage \<Rightarrow>
                        if homepage = [] then s1
                        else (case map_of (html_files d) ''homepage.html'' of
                                None \<Rightarrow> s1
                              | Some html \<Rightarrow>
                                  AList.update ''footer''
                                    (extract_section_from_html select html Footer)
                                    (AList.update ''navbar''
                                       (extract_section_from_html select html Navbar) s1)))
          in case scan_case_studies select (html_files d) 1 [] of
               None \<Rightarrow> None
             | Some case_content \<Rightarrow>
                 let s3 = (if case_content \<noteq> []
                           then AList.update ''case_study''
                                  (py_join (ustr '' '') case_content) s2
                           else s2)
                 in Some (ExtractSuccess (map fst s3),
                          Some (d\<lparr>extracted_json :=
                            Some \<lparr>ex_website = url, ex_domain = get_domain parse_url url,
                                  ex_crawl_timestamp = timestamp, sections = s3\<rparr>\<rparr>)))"

section \<open>transformer.py\<close>

text \<open>A Record; its key \<open>section\<close> is the field \<open>section_name\<close>.\<close>

record std_record =
  website :: pystr
  section_name :: string
  content :: pystr
  crawl_timestamp :: string
  isActive :: bool

datatype transform_result =
  TransformSkipped string
| TransformSuccess nat

text \<open>\<open>metadata.get("pages", {}).get("homepage", {}).get("status", 500)\<close>\<close>

definition homepage_status :: "metadata \<Rightarrow> int" where
  "homepage_status m =
     (case map_of (pages m) ''homepage'' of None \<Rightarrow> 500 | Some e \<Rightarrow> entry_status e)"

text \<open>
  \<open>transform_to_standard\<close>: the returned dictionary and the record list written to
  \<open>processed/<domain>.json\<close> (\<open>None\<close>: nothing is written).
\<close>

definition transform_to_standard ::
  "pystr \<Rightarrow> string \<Rightarrow> site_dir option \<Rightarrow> transform_result \<times> std_record list option" where
  "transform_to_standard url timestamp dir =
     (case dir of
        None \<Rightarrow> (TransformSkipped ''no_raw_data'', None)
      | Some d \<Rightarrow>
          (case (extracted_json d, metadata_json d) of
             (Some extracted, Some metadata) \<Rightarrow>
               let has_content = list_ex (\<lambda>(s, c). length c > 0) (sections extracted);
                   is_active = (homepage_status metadata = 200 \<and> has_content);
                   records = map (\<lambda>(s, c). \<lparr>website = url, section_name = s, content = c,
                                   crawl_timestamp = timestamp, isActive = is_active\<rparr>)
                               (sections extracted)
               in (TransformSuccess (length records), Some records)
           | _ \<Rightarrow> (TransformSkipped ''missing_inputs'', None)))"

section \<open>aggregator.py\<close>

text \<open>\<open>url.split('//')[-1].split('/')[0]\<close>\<close>

definition simple_domain :: "pystr \<Rightarrow> pystr" where
  "simple_domain url = hd (py_split (ustr ''/'') (last (py_split (ustr ''//'') url)))"

text \<open>
  The loop over the configured websites; \<open>processed domain\<close> is the record list stored
  in \<open>processed/<domain>.json\<close>, if that file exists.
\<close>

fun load_records ::
  "(pystr \<Rightarrow> std_record list option) \<Rightarrow> pystr list
     \<Rightarrow> std_record list \<times> (pystr \<times> bool) list \<Rightarrow> std_record list \<times> (pystr \<times> bool) list"
where
  "load_records processed [] acc = acc"
| "load_records processed (url # urls) (all_records, website_active_status) =
     (case processed (simple_domain url) of
        None \<Rightarrow> load_records processed urls (all_records, website_active_status)
      | Some records \<Rightarrow>
          load_records processed urls
            (all_records @ records,
             (case records of
                [] \<Rightarrow> website_active_status
              | r # rs \<Rightarrow> AList.update url (isActive r) website_active_status)))"

text \<open>\<open>section_lengths[r["section"]].append(len(r["content"]))\<close> on a \<open>defaultdict(list)\<close>.\<close>

definition append_length :: "(string \<times> nat list) list \<Rightarrow> std_record \<Rightarrow> (string \<times> nat list) list" where
  "append_length section_lengths r =
     (if content r \<noteq> []
      then AList.update (section_name r)
             ((case map_of section_lengths (section_name r) of None \<Rightarrow> [] | Some ls \<Rightarrow> ls)
                @ [length (content r)])
             section_lengths
      else section_lengths)"

definition section_lengths_of :: "std_record list \<Rightarrow> (string \<times> nat list) list" where
  "section_lengths_of all_records = foldl append_length [] all_records"

record stats =
  st_min :: nat
  st_max :: nat
  st_avg :: rat
  st_count :: nat

text \<open>
  Floats. A Python \<open>float\<close> that is not negative is a pair \<open>(m, k)\<close> of a mantissa and a binary
  exponent and stands for \<open>m * 2^k\<close>. The quotients of this program lie between 1 and
  \<open>sys.maxsize\<close>, in the normal range of a double: overflow and subnormal numbers are not
  modelled.
\<close>

type_synonym pyfloat = "nat \<times> int"

definition float_value :: "pyfloat \<Rightarrow> rat" where
  "float_value x =
     (case x of (m, k) \<Rightarrow>
        if 0 \<le> k then of_nat (m * 2 ^ nat k) else of_nat m / of_nat (2 ^ nat (- k)))"

text \<open>\<open>int.bit_length()\<close>\<close>

fun bit_length :: "nat \<Rightarrow> nat" where
  "bit_length n = (if n = 0 then 0 else Suc (bit_length (n div 2)))"

declare bit_length.simps [simp del]

text \<open>The quotient \<open>a / b\<close> rounded to the nearest integer, a tie to the even one.\<close>

definition round_div :: "nat \<Rightarrow> nat \<Rightarrow> nat" where
  "round_div a b =
     (if 2 * (a mod b) < b then a div b
      else if b < 2 * (a mod b) then a div b + 1
      else if even (a div b) then a div b else a div b + 1)"

text \<open>The exponent \<open>e\<close> with \<open>2^e \<le> a / b < 2^(e + 1)\<close>, for positive \<open>a\<close> and \<open>b\<close>.\<close>

definition floor_log2 :: "nat \<Rightarrow> nat \<Rightarrow> int" where
  "floor_log2 a b =
     (if bit_length b \<le> bit_length a
      then (if b * 2 ^ (bit_length a - bit_length b) \<le> a
            then int (bit_length a - bit_length b)
            else int (bit_length a - bit_length b) - 1)
      else (if b \<le> a * 2 ^ (bit_length b - bit_length a)
            then - int (bit_length b - bit_length a)
            else - int (bit_length b - bit_length a) - 1))"

text \<open>
  \<open>a / b\<close> on integers (true division, which is what \<open>float(Fraction(a, b))\<close> computes):
  the double nearest to the quotient, that is the quotient rounded to 53 significant
  bits, a tie to the even mantissa.
\<close>

definition true_div :: "nat \<Rightarrow> nat \<Rightarrow> pyfloat" where
  "true_div a b =
     (if a = 0 then (0, 0)
      else if floor_log2 a b \<le> 52
      then (round_div (a * 2 ^ nat (52 - floor_log2 a b)) b, floor_log2 a b - 52)
      else (round_div a (b * 2 ^ nat (floor_log2 a b - 52)), floor_log2 a b - 52))"

text \<open>
  \<open>round(x, 2)\<close> on a float: CPython writes the exact value of \<open>x\<close> with two decimals,
  correctly rounded (a tie to the even digit), and reads the decimal back as a double.
  \<open>c\<close> below is the number of hundredths.
\<close>

definition py_round2 :: "pyfloat \<Rightarrow> pyfloat" where
  "py_round2 x =
     (case x of (m, k) \<Rightarrow>
        if 0 \<le> k then true_div (100 * m * 2 ^ nat k) 100
        else true_div (round_div (100 * m) (2 ^ nat (- k))) 100)"

text \<open>
  \<open>round(mean(lengths), 2)\<close>. \<open>statistics.mean\<close> computes the exact quotient; for integer
  data it returns it as an \<open>int\<close> when it is whole, which \<open>round\<close> leaves as it is, and
  converts it to a \<open>float\<close> otherwise. The result is given by its exact value.
\<close>

definition round_mean :: "nat list \<Rightarrow> rat" where
  "round_mean lengths =
     (if length lengths dvd sum_list lengths
      then of_nat (sum_list lengths div length lengths)
      else float_value (py_round2 (true_div (sum_list lengths) (length lengths))))"

text \<open>\<open>min\<close>, \<open>max\<close> and \<open>mean\<close> raise on an empty list; the lists of
  \<open>section_lengths\<close> are never empty (lemma \<open>section_lengths_nonempty\<close>).\<close>

definition section_stats :: "nat list \<Rightarrow> stats" where
  "section_stats lengths =
     \<lparr>st_min = Min (set lengths), st_max = Max (set lengths),
      st_avg = round_mean lengths, st_count = length lengths\<rparr>"

record metrics =
  total_websites_processed :: nat
  num_websites_with_case_studies :: nat
  active_websites :: nat
  inactive_websites :: nat
  content_length_stats :: "(string \<times> stats) list"
  aggregation_timestamp :: string

datatype aggregate_result =
  AggregateSkipped string
| AggregateSuccess metrics

text \<open>
  \<open>compute_and_save_metrics\<close>: \<open>websites\<close> is the configured list; the result is the
  returned dictionary and the summary written (\<open>None\<close>: no file is written).
\<close>

definition compute_and_save_metrics ::
  "pystr list \<Rightarrow> (pystr \<Rightarrow> std_record list option) \<Rightarrow> string
     \<Rightarrow> aggregate_result \<times> metrics option"
where
  "compute_and_save_metrics websites processed timestamp =
     (case load_records processed websites ([], []) of
        (all_records, website_active_status) \<Rightarrow>
          if all_records = [] then (AggregateSkipped ''no_data'', None)
          else
            let m = \<lparr>total_websites_processed = length website_active_status,
                     num_websites_with_case_studies =
                       length (filter (\<lambda>r. section_name r = ''case_study'' \<and> length (content r) > 0)
                                 all_records),
                     active_websites = length (filter (\<lambda>(u, active). active) website_active_status),
                     inactive_websites =
                       length (filter (\<lambda>(u, active). \<not> active) website_active_status),
                     content_length_stats =
                       map (\<lambda>(s, lengths). (s, section_stats lengths))
                         (section_lengths_of all_records),
                     aggregation_timestamp = timestamp\<rparr>
            in (AggregateSuccess m, Some m))"

section \<open>Example inputs\<close>

text \<open>
  A small world for the concrete runs: the parser finds the given hrefs, \<open>urljoin\<close>
  appends the href to the base, \<open>lower\<close> leaves the (lower-case) examples as they are, and
  the network location of \<open>https://a.com\<close> is what follows the scheme.
\<close>

definition demo_parse_url :: "pystr \<Rightarrow> pystr \<times> pystr" where
  "demo_parse_url u = (drop 8 u, [])"

definition demo_env :: "(nat \<Rightarrow> pystr \<Rightarrow> fetch_result) \<Rightarrow> pystr list \<Rightarrow> env" where
  "demo_env req hrefs =
     \<lparr>request = req, find_hrefs = (\<lambda>html. Some hrefs),
      urljoin = (\<lambda>base href. Some (base @ href)), lower = (\<lambda>s. s),
      urlparse = demo_parse_url\<rparr>"

definition empty_dir :: site_dir where
  "empty_dir = \<lparr>html_files = [], metadata_json = None, extracted_json = None\<rparr>"

text \<open>Every page answers 200, except \<open>/case-study/one\<close>, which answers 404.\<close>

definition gap_request :: "nat \<Rightarrow> pystr \<Rightarrow> fetch_result" where
  "gap_request k u =
     (if u = ustr ''https://a.com/case-study/one'' then Response 404 (ustr ''gone'')
      else Response 200 (ustr ''page''))"

definition not_found_request :: "nat \<Rightarrow> pystr \<Rightarrow> fetch_result" where
  "not_found_request k u = Response 404 (ustr ''Not Found'')"

text \<open>The homepage request raises (a transport error).\<close>

definition failing_request :: "nat \<Rightarrow> pystr \<Rightarrow> fetch_result" where
  "failing_request k u = RequestException ''timed out''"

text \<open>The directory of a site as an earlier, successful run and its extraction left it.\<close>

definition stale_dir :: site_dir where
  "stale_dir =
     \<lparr>html_files = [(''homepage.html'', ustr ''page'')],
      metadata_json = Some
        \<lparr>meta_website = ustr ''https://a.com'', meta_domain = ustr ''a.com'',
         meta_crawl_timestamp = ''t0'',
         pages = [(''homepage'', PageFetched (ustr ''https://a.com'') 200 4 ''t0'')]\<rparr>,
      extracted_json = Some
        \<lparr>ex_website = ustr ''https://a.com'', ex_domain = ustr ''a.com'',
         ex_crawl_timestamp = ''t0'',
         sections = [(''homepage'', ustr ''page''), (''navbar'', []), (''footer'', [])]\<rparr>\<rparr>"

text \<open>The identity as the selection of \<open>extract_section_from_html\<close>: the whole document is the text.\<close>

definition select_all :: "pystr \<Rightarrow> section_type \<Rightarrow> pystr" where
  "select_all html section_type = html"

text \<open>A directory whose only case-study page has an empty body.\<close>

definition blank_case_dir :: site_dir where
  "blank_case_dir =
     \<lparr>html_files = [(''homepage.html'', ustr ''page''), (''case_study_01.html'', [])],
      metadata_json = None, extracted_json = None\<rparr>"

text \<open>Pages 1 to 3 and 5: page 2 is blank, page 4 is missing.\<close>

definition pages_dir :: site_dir where
  "pages_dir =
     \<lparr>html_files = [(''homepage.html'', ustr ''page''), (''case_study_01.html'', ustr ''one''),
                     (''case_study_02.html'', ustr ''  ''), (''case_study_03.html'', ustr ''three''),
                     (''case_study_05.html'', ustr ''five'')],
      metadata_json = None, extracted_json = None\<rparr>"

text \<open>Three configured sites with records, a fourth without; record contents of a given length.\<close>

definition demo_sites :: "pystr list" where
  "demo_sites = [ustr ''https://a.com'', ustr ''http://b.org/x'', ustr ''c.net'', ustr ''https://d.io'']"

definition demo_record :: "pystr \<Rightarrow> string \<Rightarrow> nat \<Rightarrow> bool \<Rightarrow> std_record" where
  "demo_record url s n active =
     \<lparr>website = url, section_name = s, content = replicate n 97, crawl_timestamp = ''t'',
      isActive = active\<rparr>"

definition demo_processed :: "pystr \<Rightarrow> std_record list option" where
  "demo_processed site =
     (if site = ustr ''a.com''
      then Some [demo_record (ustr ''https://a.com'') ''homepage'' 100 True,
                 demo_record (ustr ''https://a.com'') ''navbar'' 0 True]
      else if site = ustr ''b.org''
      then Some [demo_record (ustr ''http://b.org/x'') ''homepage'' 200 False]
      else if site = ustr ''c.net''
      then Some [demo_record (ustr ''c.net'') ''homepage'' 300 True]
      else None)"

text \<open>
  Three sites whose homepage records have the lengths 2, 2 and 3 and whose footer records
  have the lengths 5, 0 and 6.
\<close>

definition stats_sites :: "pystr list" where
  "stats_sites = [ustr ''https://e.com'', ustr ''https://f.com'', ustr ''https://g.com'']"

definition stats_processed :: "pystr \<Rightarrow> std_record list option" where
  "stats_processed site =
     (if site = ustr ''e.com''
      then Some [demo_record (ustr ''https://e.com'') ''homepage'' 2 True,
                 demo_record (ustr ''https://e.com'') ''footer'' 5 True]
      else if site = ustr ''f.com''
      then Some [demo_record (ustr ''https://f.com'') ''homepage'' 2 True,
                 demo_record (ustr ''https://f.com'') ''footer'' 0 True]
      else if site = ustr ''g.com''
      then Some [demo_record (ustr ''https://g.com'') ''homepage'' 3 True,
                 demo_record (ustr ''https://g.com'') ''footer'' 6 True]
      else None)"

text \<open>
  The directory of a site with the given entries of \<open>metadata['pages']\<close> and the given
  section map.
\<close>

definition site_with :: "(string \<times> page_entry) list \<Rightarrow> (string \<times> pystr) list \<Rightarrow> site_dir" where
  "site_with page_entries section_map =
     \<lparr>html_files = [],
      metadata_json = Some
        \<lparr>meta_website = ustr ''https://a.com'', meta_domain = ustr ''a.com'',
         meta_crawl_timestamp = ''t0'', pages = page_entries\<rparr>,
      extracted_json = Some
        \<lparr>ex_website = ustr ''https://a.com'', ex_domain = ustr ''a.com'',
         ex_crawl_timestamp = ''t0'', sections = section_map\<rparr>\<rparr>"

section \<open>Evaluation of concrete runs\<close>

lemmas eval_simps =
  demo_env_def demo_parse_url_def empty_dir_def ustr_def crawl_website_def discover_def
  classify_link_def case_keywords_def sublist_Cons_right strip_def py_isspace_def slice_to_def
  enumerate1_def write_html_def case_file_def case_key_def fmt_02d_def str_int_def dec.simps
  digit_def get_domain_def py_split_def upt_rec

lemmas extract_simps =
  extract_and_tag_def extract_section_from_html_def clean_text_def strip_def py_isspace_def
  sub_zero_width_def zero_width_def scan_case_studies.simps case_file_def case_key_def
  fmt_02d_def dec.simps digit_def ustr_def get_domain_def py_split_def

section \<open>Properties of the helpers\<close>

text \<open>A split has at least one field, so \<open>[0]\<close> and \<open>[-1]\<close> on its result never raise.\<close>

lemma split_from_nonempty: "split_from sep cur s \<noteq> []"
  by (induction sep cur s rule: split_from.induct) auto

lemma py_split_nonempty: "py_split sep s \<noteq> []"
  by (simp add: py_split_def split_from_nonempty)

section \<open>Properties of clean_text\<close>

lemma clean_text_no_zero_width: "\<forall>c \<in> set (clean_text txt). \<not> zero_width c"
  by (simp add: clean_text_def sub_zero_width_def)

lemma has_space_run_Cons:
  "has_space_run (a # ys) \<longleftrightarrow>
     (ys \<noteq> [] \<and> py_isspace a \<and> py_isspace (hd ys)) \<or> has_space_run ys"
  by (cases ys) auto

lemma sub_spaces_hd:
  "xs \<noteq> [] \<Longrightarrow> \<not> py_isspace (hd xs) \<Longrightarrow> sub_spaces xs \<noteq> [] \<and> hd (sub_spaces xs) = hd xs"
  by (cases xs) auto

lemma sub_spaces_nonempty: "sub_spaces xs \<noteq> [] \<Longrightarrow> xs \<noteq> []"
  by auto

lemma dropWhile_hd: "dropWhile P xs \<noteq> [] \<Longrightarrow> \<not> P (hd (dropWhile P xs))"
  using hd_dropWhile by blast

lemma sub_spaces_no_run: "\<not> has_space_run (sub_spaces xs)"
proof (induction xs rule: sub_spaces.induct)
  case 1
  show ?case by simp
next
  case (2 c cs)
  show ?case
  proof (cases "py_isspace c")
    case True
    let ?r = "dropWhile py_isspace cs"
    have "sub_spaces ?r \<noteq> [] \<Longrightarrow> \<not> py_isspace (hd (sub_spaces ?r))"
    proof -
      assume n: "sub_spaces ?r \<noteq> []"
      then have "?r \<noteq> []" by (rule sub_spaces_nonempty)
      then have "\<not> py_isspace (hd ?r)" by (rule dropWhile_hd)
      with \<open>?r \<noteq> []\<close> show ?thesis using sub_spaces_hd [of ?r] by simp
    qed
    with True "2.IH"(1) show ?thesis
      by (auto simp: has_space_run_Cons)
  next
    case False
    with "2.IH"(2) show ?thesis
      by (auto simp: has_space_run_Cons)
  qed
qed

lemma sub_spaces_only_space:
  "c \<in> set (sub_spaces xs) \<Longrightarrow> c \<in> set xs \<or> c = 32"
proof (induction xs rule: sub_spaces.induct)
  case 1
  then show ?case by simp
next
  case (2 d ds)
  then show ?case
    by (auto split: if_splits dest: set_dropWhileD)
qed

lemma sub_spaces_spaces: "c \<in> set (sub_spaces xs) \<Longrightarrow> py_isspace c \<Longrightarrow> c = 32"
proof (induction xs rule: sub_spaces.induct)
  case 1
  then show ?case by simp
next
  case (2 d ds)
  then show ?case
    by (auto split: if_splits)
qed

lemma sub_spaces_fixed:
  "\<not> has_space_run xs \<Longrightarrow> \<forall>c \<in> set xs. py_isspace c \<longrightarrow> c = 32 \<Longrightarrow> sub_spaces xs = xs"
proof (induction xs rule: sub_spaces.induct)
  case 1
  show ?case by simp
next
  case (2 c cs)
  show ?case
  proof (cases "py_isspace c")
    case True
    then have c: "c = 32" using "2.prems"(2) by simp
    have d: "dropWhile py_isspace cs = cs"
      using "2.prems"(1) True by (cases cs) auto
    have "\<not> has_space_run cs" using "2.prems"(1) by (simp add: has_space_run_Cons)
    with "2.IH"(1) [OF True] "2.prems"(2) d have "sub_spaces cs = cs" by simp
    with True c d show ?thesis by simp
  next
    case False
    have "\<not> has_space_run cs" using "2.prems"(1) by (simp add: has_space_run_Cons)
    with "2.IH"(2) [OF False] "2.prems"(2) False show ?thesis by simp
  qed
qed

lemma dropWhile_last:
  "xs \<noteq> [] \<Longrightarrow> \<not> P (last xs) \<Longrightarrow> dropWhile P xs \<noteq> [] \<and> last (dropWhile P xs) = last xs"
  by (induction xs) (auto split: if_splits)

lemma sub_spaces_last:
  "xs \<noteq> [] \<Longrightarrow> \<not> py_isspace (last xs) \<Longrightarrow>
   sub_spaces xs \<noteq> [] \<and> last (sub_spaces xs) = last xs"
proof (induction xs rule: sub_spaces.induct)
  case 1
  then show ?case by simp
next
  case (2 c cs)
  show ?case
  proof (cases "py_isspace c")
    case True
    with "2.prems" have n: "cs \<noteq> []" and l: "\<not> py_isspace (last cs)"
      by (auto split: if_splits)
    from dropWhile_last [of cs py_isspace, OF n l]
    have d: "dropWhile py_isspace cs \<noteq> []" "last (dropWhile py_isspace cs) = last cs" by auto
    with "2.IH"(1) [OF True] l
    have "sub_spaces (dropWhile py_isspace cs) \<noteq> []"
      "last (sub_spaces (dropWhile py_isspace cs)) = last cs" by auto
    with True n show ?thesis by simp
  next
    case False
    show ?thesis
    proof (cases "cs = []")
      case True
      with False show ?thesis by simp
    next
      case n: False
      with "2.prems" have "\<not> py_isspace (last cs)" by simp
      with "2.IH"(2) [OF False] n False show ?thesis by simp
    qed
  qed
qed

lemma strip_ends:
  "strip s \<noteq> [] \<Longrightarrow> \<not> py_isspace (hd (strip s)) \<and> \<not> py_isspace (last (strip s))"
proof -
  assume n: "strip s \<noteq> []"
  let ?a = "dropWhile py_isspace s"
  let ?b = "dropWhile py_isspace (rev ?a)"
  have s: "strip s = rev ?b" by (simp add: strip_def)
  with n have b: "?b \<noteq> []" by simp
  then have hb: "\<not> py_isspace (hd ?b)" by (rule dropWhile_hd)
  have "last (strip s) = hd ?b" using b s by (simp add: last_rev)
  with hb have l: "\<not> py_isspace (last (strip s))" by simp
  from b have a: "?a \<noteq> []" by (auto dest: set_dropWhileD)
  then have ha: "\<not> py_isspace (hd ?a)" by (rule dropWhile_hd)
  have "rev ?a \<noteq> []" "\<not> py_isspace (last (rev ?a))"
    using a ha by (simp_all add: last_rev)
  from dropWhile_last [of "rev ?a" py_isspace, OF this] have "last ?b = hd ?a"
    using a by (simp add: last_rev)
  then have "hd (strip s) = hd ?a" using b s by (simp add: hd_rev)
  with ha l show ?thesis by simp
qed

lemma strip_fixed:
  "s \<noteq> [] \<Longrightarrow> \<not> py_isspace (hd s) \<Longrightarrow> \<not> py_isspace (last s) \<Longrightarrow> strip s = s"
proof -
  assume n: "s \<noteq> []" and h: "\<not> py_isspace (hd s)" and l: "\<not> py_isspace (last s)"
  from n h have a: "dropWhile py_isspace s = s" by (cases s) auto
  from n l have "dropWhile py_isspace (rev s) = rev s" by (cases "rev s") (auto simp: hd_rev)
  with a show ?thesis by (simp add: strip_def)
qed

lemma strip_set: "c \<in> set (strip s) \<Longrightarrow> c \<in> set s"
  by (auto simp: strip_def dest!: set_dropWhileD)

lemma not_zero_width_32: "\<not> zero_width 32"
  by (simp add: zero_width_def)

text \<open>
  On a text without zero-width characters, \<open>clean_text\<close> leaves no run of whitespace
  and cleaning its output changes nothing.
\<close>

lemma clean_text_without_zero_width:
  assumes "\<forall>c \<in> set txt. \<not> zero_width c"
  shows "clean_text (clean_text txt) = clean_text txt \<and> \<not> has_space_run (clean_text txt)"
proof (cases "txt = []")
  case True
  then show ?thesis by (simp add: clean_text_def)
next
  case False
  let ?y = "sub_spaces (strip txt)"
  have z: "\<forall>c \<in> set ?y. \<not> zero_width c"
    using assms not_zero_width_32 by (auto dest!: sub_spaces_only_space strip_set)
  then have f: "sub_zero_width ?y = ?y"
    by (simp add: sub_zero_width_def)
  with False have y: "clean_text txt = ?y" by (simp add: clean_text_def)
  have r: "\<not> has_space_run ?y" by (rule sub_spaces_no_run)
  have "clean_text ?y = ?y"
  proof (cases "?y = []")
    case True
    then show ?thesis by (simp add: clean_text_def)
  next
    case n: False
    then have sn: "strip txt \<noteq> []" by (rule sub_spaces_nonempty)
    from strip_ends [OF sn] have e: "\<not> py_isspace (hd (strip txt))" "\<not> py_isspace (last (strip txt))"
      by auto
    have "hd ?y = hd (strip txt)" using sub_spaces_hd [OF sn e(1)] by simp
    moreover have "last ?y = last (strip txt)" using sub_spaces_last [OF sn e(2)] by simp
    ultimately have "strip ?y = ?y" using strip_fixed [OF n] e by simp
    moreover have "sub_spaces ?y = ?y"
      using sub_spaces_fixed [OF r] sub_spaces_spaces by blast
    ultimately show ?thesis using n f by (simp add: clean_text_def)
  qed
  with y r show ?thesis by simp
qed

text \<open>
  C1. The claim: \<open>clean_text\<close> is idempotent and its output has no run of whitespace
  longer than one character. The code removes the zero-width characters after it has
  collapsed the whitespace. In the five characters \<open>a\<close>, space, U+200B, space, \<open>b\<close>
  (code points 97, 32, 0x200B, 32, 98) the two spaces are not adjacent when the
  whitespace is collapsed and are adjacent once U+200B is gone: the output has a run of
  two spaces between \<open>a\<close> and \<open>b\<close>, and cleaning it again leaves one. (Without
  zero-width characters in the input both properties hold, lemma
  \<open>clean_text_without_zero_width\<close>, and the output never has a zero-width character,
  lemma \<open>clean_text_no_zero_width\<close>.)
\<close>

theorem clean_text_zero_width_between_spaces:
  "clean_text [97, 32, 0x200B, 32, 98] = [97, 32, 32, 98] \<and>
   has_space_run (clean_text [97, 32, 0x200B, 32, 98]) \<and>
   clean_text (clean_text [97, 32, 0x200B, 32, 98]) = [97, 32, 98] \<and>
   clean_text (clean_text [97, 32, 0x200B, 32, 98]) \<noteq> clean_text [97, 32, 0x200B, 32, 98]"
  by (simp add: clean_text_def strip_def sub_zero_width_def zero_width_def py_isspace_def)

section \<open>Link classification\<close>

lemma classify_case_study_keeps_internal:
  "sublist (ustr ''case-study'') (lower E href) \<Longrightarrow>
   snd (classify_link E url mi href full_url acc) = snd acc"
  by (cases acc) (simp add: classify_link_def case_keywords_def)

lemma classify_internal_only:
  "snd (classify_link E url mi href full_url (cs, ints)) =
   snd (classify_link E url mi href full_url (cs', ints))"
  by (simp add: classify_link_def)

lemma case_candidates_distinct:
  "discover_links E url mi hrefs (cs, ints) = Some (cs', ints') \<Longrightarrow> distinct cs \<Longrightarrow> distinct cs'"
proof (induction hrefs arbitrary: cs ints)
  case Nil
  then show ?case by simp
next
  case (Cons a as)
  from Cons.prems obtain full_url where
    r: "discover_links E url mi as (classify_link E url mi (strip a) full_url (cs, ints))
          = Some (cs', ints')"
    by (auto split: option.splits)
  obtain cs1 ints1 where c: "classify_link E url mi (strip a) full_url (cs, ints) = (cs1, ints1)"
    by (cases "classify_link E url mi (strip a) full_url (cs, ints)")
  with Cons.prems(2) have "distinct cs1"
    by (auto simp: classify_link_def split: if_splits)
  with r c Cons.IH [of cs1 ints1] show ?case by simp
qed

text \<open>
  C6. The claim: neither candidate list contains the same resolved URL twice. The
  case-study branch tests \<open>full_url not in case_study_candidates\<close> before it appends
  (lemma \<open>case_candidates_distinct\<close>); the internal branch only tests the cap. A homepage
  with two anchors to \<open>/about\<close> gives the internal list
  \<open>[https://a.com/about, https://a.com/about]\<close>.
\<close>

theorem internal_candidates_repeated:
  "discover (demo_env gap_request [ustr ''/about'', ustr ''/about'']) (ustr ''https://a.com'') 4
     (ustr ''page'')
   = Some ([], [ustr ''https://a.com/about'', ustr ''https://a.com/about'']) \<and>
   \<not> distinct [ustr ''https://a.com/about'', ustr ''https://a.com/about'']"
  by (simp add: eval_simps)

text \<open>
  C7. An anchor whose lower-cased href contains \<open>case-study\<close> is never placed in the
  internal candidates, whatever its resolved URL: the internal list computed from the
  anchors of the document is the list computed from the document without these anchors.
\<close>

theorem case_study_links_never_internal:
  assumes "discover_links E url mi hrefs (cs, ints) = Some (cs', ints')"
  shows "\<exists>cs''. discover_links E url mi
           (filter (\<lambda>a. \<not> sublist (ustr ''case-study'') (lower E (strip a))) hrefs) (cs0, ints)
         = Some (cs'', ints')"
  using assms
proof (induction hrefs arbitrary: cs cs0 ints)
  case Nil
  then show ?case by simp
next
  case (Cons a as)
  from Cons.prems obtain full_url where
    j: "urljoin E url (strip a) = Some full_url" and
    r: "discover_links E url mi as (classify_link E url mi (strip a) full_url (cs, ints))
          = Some (cs', ints')"
    by (auto split: option.splits)
  obtain cs1 ints1 where c: "classify_link E url mi (strip a) full_url (cs, ints) = (cs1, ints1)"
    by (cases "classify_link E url mi (strip a) full_url (cs, ints)")
  show ?case
  proof (cases "sublist (ustr ''case-study'') (lower E (strip a))")
    case True
    then have "ints1 = ints"
      using classify_case_study_keeps_internal [of E "strip a" url mi full_url "(cs, ints)"] c
      by simp
    with r c Cons.IH [of cs1 ints cs0] True show ?thesis by simp
  next
    case False
    obtain cs2 ints2 where c2: "classify_link E url mi (strip a) full_url (cs0, ints) = (cs2, ints2)"
      by (cases "classify_link E url mi (strip a) full_url (cs0, ints)")
    have "ints2 = ints1"
      using classify_internal_only [of E url mi "strip a" full_url cs0 ints cs] c c2 by simp
    with r c c2 j Cons.IH [of cs1 ints1 cs2] False show ?thesis by simp
  qed
qed

theorem case_study_links_never_internal_witness:
  "discover_links (demo_env gap_request []) (ustr ''https://a.com'') 4
     [ustr ''/case-study/one'', ustr ''/about''] ([], [])
     = Some ([ustr ''https://a.com/case-study/one''], [ustr ''https://a.com/about'']) \<and>
   (\<exists>cs''. discover_links (demo_env gap_request []) (ustr ''https://a.com'') 4
      (filter (\<lambda>a. \<not> sublist (ustr ''case-study'') (lower (demo_env gap_request []) (strip a)))
         [ustr ''/case-study/one'', ustr ''/about'']) ([], [])
     = Some (cs'', [ustr ''https://a.com/about'']))"
proof -
  have h: "discover_links (demo_env gap_request []) (ustr ''https://a.com'') 4
      [ustr ''/case-study/one'', ustr ''/about''] ([], [])
     = Some ([ustr ''https://a.com/case-study/one''], [ustr ''https://a.com/about''])"
    by (simp add: eval_simps)
  show ?thesis
    using h case_study_links_never_internal [OF h, of "[]"] by simp
qed

section \<open>The crawl of one site\<close>

text \<open>
  C2. The claim: the case-study pages saved by a run are numbered 01, 02, ... without
  gaps, a failed candidate consuming no number. The file name and the metadata key use
  the position \<open>i\<close> of the candidate given by \<open>enumerate\<close>, not the number of pages saved
  so far: with two candidates of which the first answers 404, the run saves
  \<open>case_study_02\<close> only.
\<close>

theorem case_study_numbering_gap:
  "fst (crawl_website (demo_env gap_request [ustr ''/case-study/one'', ustr ''/case-study/two''])
         (ustr ''https://a.com'') ''t'' 3 4 empty_dir) = CrawlSuccess 1 \<and>
   map fst (html_files (fst (snd (crawl_website
       (demo_env gap_request [ustr ''/case-study/one'', ustr ''/case-study/two''])
         (ustr ''https://a.com'') ''t'' 3 4 empty_dir))))
     = [''homepage.html'', ''case_study_02.html''] \<and>
   map_option pages (metadata_json (fst (snd (crawl_website
       (demo_env gap_request [ustr ''/case-study/one'', ustr ''/case-study/two''])
         (ustr ''https://a.com'') ''t'' 3 4 empty_dir))))
     = Some [(''homepage'', PageFetched (ustr ''https://a.com'') 200 4 ''t''),
             (''case_study_02'',
              PageFetched (ustr ''https://a.com/case-study/two'') 200 4 ''t'')]"
  by (simp add: eval_simps gap_request_def)

text \<open>
  C5, as the claim states it: a homepage that answers 404 with the body \<open>Not Found\<close>
  would give the reason \<open>homepage_status\<close> and a saved \<open>homepage.html\<close> holding that body.
  The reason is \<open>homepage_404\<close> and the saved file is empty.
\<close>

theorem homepage_404_counterexample:
  "\<not> (crawl_reason (fst (crawl_website (demo_env not_found_request []) (ustr ''https://a.com'')
          ''t'' 3 4 empty_dir)) = Some ''homepage_status'' \<and>
      map_of (html_files (fst (snd (crawl_website (demo_env not_found_request [])
          (ustr ''https://a.com'') ''t'' 3 4 empty_dir)))) ''homepage.html''
        = Some (ustr ''Not Found''))"
  by (simp add: eval_simps not_found_request_def)

text \<open>
  C5, amended: when the homepage request returns with a status other than 200, the crawl
  returns \<open>partial\<close> with the reason \<open>homepage_\<close> followed by the status in decimal, writes
  \<open>homepage.html\<close> with empty content (the body of the response is dropped), returns the
  metadata with the homepage entry alone, and has made this one request only; nothing of
  the result depends on the parser or on later responses.
\<close>

theorem homepage_not_200:
  assumes "request E 0 url = Response status body" and "status \<noteq> 200"
  shows "crawl_website E url timestamp max_case_studies max_internal d =
           (CrawlPartial (''homepage_'' @ str_int status)
              \<lparr>meta_website = url, meta_domain = get_domain (urlparse E) url,
               meta_crawl_timestamp = timestamp,
               pages = [(''homepage'', PageFetched url status 0 timestamp)]\<rparr>,
            d\<lparr>html_files := AList.update ''homepage.html'' [] (html_files d)\<rparr>,
            [url])"
  using assms by (simp add: crawl_website_def write_html_def)

theorem homepage_not_200_witness:
  "crawl_website (demo_env not_found_request []) (ustr ''https://a.com'') ''t'' 3 4 empty_dir =
     (CrawlPartial ''homepage_404''
        \<lparr>meta_website = ustr ''https://a.com'', meta_domain = ustr ''a.com'',
         meta_crawl_timestamp = ''t'',
         pages = [(''homepage'', PageFetched (ustr ''https://a.com'') 404 0 ''t'')]\<rparr>,
      \<lparr>html_files = [(''homepage.html'', [])], metadata_json = None, extracted_json = None\<rparr>,
      [ustr ''https://a.com''])"
proof -
  have h: "request (demo_env not_found_request []) 0 (ustr ''https://a.com'')
             = Response 404 (ustr ''Not Found'')"
    by (simp add: demo_env_def not_found_request_def)
  have n: "(404::int) \<noteq> 200" by simp
  show ?thesis
    using homepage_not_200 [OF h n, of "''t''" 3 4 empty_dir]
    by (simp add: eval_simps)
qed

text \<open>
  C10, as the claim states it: after a crawl that ends \<open>failed\<close>, the Transform Stage
  reports \<open>skipped\<close> with \<open>missing_inputs\<close>. The crawl writes no \<open>metadata.json\<close>, but it
  does not remove one either: in a directory that holds the documents of an earlier run,
  the Transform Stage finds both inputs and produces Records.
\<close>

theorem stale_metadata_counterexample:
  "\<not> (crawl_status (fst (crawl_website (demo_env failing_request []) (ustr ''https://a.com'')
           ''t1'' 3 4 stale_dir)) = ''failed'' \<longrightarrow>
       fst (transform_to_standard (ustr ''https://a.com'') ''t1''
              (Some (fst (snd (crawl_website (demo_env failing_request []) (ustr ''https://a.com'')
                 ''t1'' 3 4 stale_dir)))))
         = TransformSkipped ''missing_inputs'')"
  by (simp add: eval_simps failing_request_def stale_dir_def transform_to_standard_def
        homepage_status_def)

text \<open>
  C10, amended: \<open>crawl_website\<close> writes \<open>metadata.json\<close> on the success path only. A run
  that ends \<open>failed\<close> or \<open>partial\<close> leaves the \<open>metadata.json\<close> of the directory as it was
  (the metadata is in the returned value only); when the directory held none before the
  run, a subsequent Transform Stage, directly or after the Extraction Stage, reports
  \<open>skipped\<close> with \<open>missing_inputs\<close> and writes no Records.
\<close>

theorem metadata_json_only_on_success:
  assumes "crawl_website E url ts max_case_studies max_internal d = (r, d', requested)"
  shows "(crawl_status r = ''success'' \<longrightarrow> metadata_json d' \<noteq> None) \<and>
         (crawl_status r \<noteq> ''success'' \<longrightarrow>
            metadata_json d' = metadata_json d \<and>
            (metadata_json d = None \<longrightarrow>
               transform_to_standard url ts' (Some d') = (TransformSkipped ''missing_inputs'', None) \<and>
               (\<forall>select parse_url ts'' x d''.
                  extract_and_tag select parse_url url ts'' (Some d') = Some (x, Some d'') \<longrightarrow>
                  transform_to_standard url ts' (Some d'')
                    = (TransformSkipped ''missing_inputs'', None))))"
  using assms
  by (auto simp: crawl_website_def write_html_def transform_to_standard_def extract_and_tag_def
        Let_def split: fetch_result.splits if_splits option.splits prod.splits)

theorem metadata_json_only_on_success_witness:
  "crawl_status (CrawlFailed ''homepage_fetch_error''
      \<lparr>meta_website = ustr ''https://a.com'', meta_domain = ustr ''a.com'',
       meta_crawl_timestamp = ''t1'', pages = [(''homepage'', PageError 0 ''timed out'')]\<rparr>)
     \<noteq> ''success'' \<and>
   metadata_json empty_dir = None \<and>
   transform_to_standard (ustr ''https://a.com'') ''t2'' (Some empty_dir)
     = (TransformSkipped ''missing_inputs'', None)"
proof -
  have h: "crawl_website (demo_env failing_request []) (ustr ''https://a.com'') ''t1'' 3 4 empty_dir
     = (CrawlFailed ''homepage_fetch_error''
          \<lparr>meta_website = ustr ''https://a.com'', meta_domain = ustr ''a.com'',
           meta_crawl_timestamp = ''t1'', pages = [(''homepage'', PageError 0 ''timed out'')]\<rparr>,
        empty_dir, [ustr ''https://a.com''])"
    by (simp add: eval_simps failing_request_def)
  show ?thesis
    using metadata_json_only_on_success [OF h, of "''t2''"]
    by (simp add: empty_dir_def)
qed

section \<open>The Extraction Stage\<close>

lemma digit_code: "d < 10 \<Longrightarrow> of_char (digit d) = 48 + d"
proof -
  assume "d < 10"
  then have "d = 0 \<or> d = 1 \<or> d = 2 \<or> d = 3 \<or> d = 4 \<or> d = 5 \<or> d = 6 \<or> d = 7 \<or> d = 8 \<or> d = 9"
    by arith
  then show ?thesis
    by (elim disjE) (simp_all add: digit_def)
qed

lemma dec_small: "n < 10 \<Longrightarrow> dec n = [digit n]"
  by (subst dec.simps) simp

lemma dec_large: "\<not> n < 10 \<Longrightarrow> dec n = dec (n div 10) @ [digit (n mod 10)]"
  by (subst dec.simps) simp

lemma dec_decode: "foldl (\<lambda>a c. 10 * a + (of_char c - 48)) 0 (dec n) = n"
proof (induction n rule: dec.induct)
  case (1 n)
  show ?case
  proof (cases "n < 10")
    case True
    then show ?thesis
      by (simp add: dec_small digit_code)
  next
    case False
    have m: "n mod 10 < 10" by simp
    have "foldl (\<lambda>a c. 10 * a + (of_char c - 48)) 0 (dec n)
          = 10 * foldl (\<lambda>a c. 10 * a + (of_char c - 48)) 0 (dec (n div 10))
            + (of_char (digit (n mod 10)) - 48)"
      by (simp only: dec_large [OF False] foldl_append foldl_Cons foldl_Nil)
    also have "\<dots> = 10 * (n div 10) + n mod 10"
      by (simp only: "1.IH" [OF False] digit_code [OF m] add_diff_cancel_left')
    also have "\<dots> = n" by simp
    finally show ?thesis .
  qed
qed

lemma fmt_02d_decode: "foldl (\<lambda>a c. 10 * a + (of_char c - 48)) 0 (fmt_02d i) = i"
proof (cases "i < 10")
  case True
  have "fmt_02d i = CHR ''0'' # dec i" using True by (simp add: fmt_02d_def)
  then show ?thesis using dec_decode [of i] by simp
next
  case False
  then have "fmt_02d i = dec i" by (simp add: fmt_02d_def)
  then show ?thesis using dec_decode [of i] by simp
qed

lemma case_file_inj: "case_file i = case_file j \<Longrightarrow> i = j"
proof -
  assume "case_file i = case_file j"
  then have "fmt_02d i = fmt_02d j"
    by (simp add: case_file_def case_key_def)
  then have "foldl (\<lambda>a c. 10 * a + (of_char c - 48)) (0::nat) (fmt_02d i)
           = foldl (\<lambda>a c. 10 * a + (of_char c - 48)) (0::nat) (fmt_02d j)"
    by (rule arg_cong)
  then show "i = j"
    by (simp only: fmt_02d_decode)
qed

lemma first_gap:
  "\<exists>k\<ge>1. map_of files (case_file k) = None \<and>
          (\<forall>j. 1 \<le> j \<and> j < k \<longrightarrow> map_of files (case_file j) \<noteq> None)"
proof -
  have "inj case_file"
    by (rule injI) (rule case_file_inj)
  moreover have "finite (dom (map_of files))"
    by (rule finite_dom_map_of)
  ultimately have "finite (case_file -` dom (map_of files))"
    by (simp add: finite_vimageI)
  then have "finite (insert 0 (case_file -` dom (map_of files)))"
    by simp
  then obtain n where "n \<notin> insert 0 (case_file -` dom (map_of files))"
    using ex_new_if_finite [OF infinite_UNIV_nat] by blast
  then have "\<exists>n. 1 \<le> n \<and> map_of files (case_file n) = None"
    by (auto intro!: exI [of _ n])
  then obtain k where k: "1 \<le> k \<and> map_of files (case_file k) = None"
    and least: "\<forall>j<k. \<not> (1 \<le> j \<and> map_of files (case_file j) = None)"
    using exists_least_iff [of "\<lambda>n. 1 \<le> n \<and> map_of files (case_file n) = None"] by blast
  have "\<forall>j. 1 \<le> j \<and> j < k \<longrightarrow> map_of files (case_file j) \<noteq> None"
    using least by simp
  with k show ?thesis
    by (intro exI [of _ k]) simp
qed

lemma scan_to_gap:
  assumes "map_of files (case_file k) = None"
  shows "i \<le> k \<Longrightarrow> \<forall>j. i \<le> j \<and> j < k \<longrightarrow> map_of files (case_file j) \<noteq> None \<Longrightarrow>
         scan_case_studies select files i acc =
           Some (acc @ filter (\<lambda>t. t \<noteq> [])
                   (map (\<lambda>j. extract_section_from_html select (the (map_of files (case_file j)))
                                CaseStudy) [i..<k]))"
proof (induction "k - i" arbitrary: i acc)
  case 0
  then have "i = k" by simp
  with assms show ?case
    by (subst scan_case_studies.simps) simp
next
  case (Suc n)
  then have lt: "i < k" by simp
  with Suc.prems obtain html where h: "map_of files (case_file i) = Some html"
    by auto
  have "n = k - Suc i" using Suc.hyps(2) by simp
  moreover have "Suc i \<le> k" using lt by simp
  moreover have "\<forall>j. Suc i \<le> j \<and> j < k \<longrightarrow> map_of files (case_file j) \<noteq> None"
    using Suc.prems(2) by simp
  ultimately have ih: "\<And>acc. scan_case_studies select files (Suc i) acc =
           Some (acc @ filter (\<lambda>t. t \<noteq> [])
                   (map (\<lambda>j. extract_section_from_html select (the (map_of files (case_file j)))
                                CaseStudy) [Suc i..<k]))"
    using Suc.hyps(1) by blast
  show ?case
    by (subst scan_case_studies.simps) (simp add: h ih upt_conv_Cons [OF lt])
qed

lemma extract_and_tag_case_study:
  assumes "scan_case_studies select (html_files d) (Suc 0) [] = Some texts"
  shows "\<exists>keys d' x.
        extract_and_tag select parse_url url timestamp (Some d)
          = Some (ExtractSuccess keys, Some d') \<and>
        extracted_json d' = Some x \<and>
        map_of (sections x) ''case_study'' =
          (if texts = [] then None else Some (py_join (ustr '' '') texts))"
  by (simp add: extract_and_tag_def assms Let_def update_conv' split: option.splits)

text \<open>
  C9, as the claim states it: the \<open>case_study\<close> entry is present, possibly as the empty
  string, whenever case-study extraction was attempted. The entry is only written
  \<open>if case_content\<close>: with one saved case-study page whose text is empty, the section map
  has the keys \<open>homepage\<close>, \<open>navbar\<close> and \<open>footer\<close> and no \<open>case_study\<close>.
\<close>

theorem case_study_key_absent:
  "extract_and_tag select_all demo_parse_url (ustr ''https://a.com'') ''t'' (Some blank_case_dir)
     = Some (ExtractSuccess [''homepage'', ''navbar'', ''footer''],
         Some \<lparr>html_files = [(''homepage.html'', ustr ''page''), (''case_study_01.html'', [])],
               metadata_json = None,
               extracted_json = Some
                 \<lparr>ex_website = ustr ''https://a.com'', ex_domain = ustr ''a.com'',
                  ex_crawl_timestamp = ''t'',
                  sections = [(''homepage'', ustr ''page''), (''navbar'', ustr ''page''),
                              (''footer'', ustr ''page'')]\<rparr>\<rparr>) \<and>
   map_of [(''homepage'', ustr ''page''), (''navbar'', ustr ''page''), (''footer'', ustr ''page'')]
     ''case_study'' = None"
  by (simp add: extract_simps select_all_def blank_case_dir_def demo_parse_url_def)

text \<open>
  C9, amended: the Extraction Stage returns; it reads the case-study bodies
  \<open>case_study_01.html\<close>, \<open>case_study_02.html\<close>, ... in ascending order up to the first
  missing number (\<open>pages\<close> below), and the \<open>case_study\<close> entry of the section map is the
  single-space join, in page order, of the non-empty extracted texts of these pages;
  the key is absent when no page gives a non-empty text.
\<close>

theorem case_study_section:
  "\<exists>pages.
     (\<forall>j < length pages. map_of (html_files d) (case_file (Suc j)) = Some (pages ! j)) \<and>
     map_of (html_files d) (case_file (Suc (length pages))) = None \<and>
     (\<exists>keys d' x.
        extract_and_tag select parse_url url timestamp (Some d)
          = Some (ExtractSuccess keys, Some d') \<and>
        extracted_json d' = Some x \<and>
        map_of (sections x) ''case_study'' =
          (if filter (\<lambda>t. t \<noteq> [])
                (map (\<lambda>html. extract_section_from_html select html CaseStudy) pages) = []
           then None
           else Some (py_join (ustr '' '')
                  (filter (\<lambda>t. t \<noteq> [])
                     (map (\<lambda>html. extract_section_from_html select html CaseStudy) pages)))))"
proof -
  let ?files = "html_files d"
  obtain k where k: "1 \<le> k" "map_of ?files (case_file k) = None"
    "\<forall>j. 1 \<le> j \<and> j < k \<longrightarrow> map_of ?files (case_file j) \<noteq> None"
    using first_gap [of ?files] by blast
  let ?pages = "map (\<lambda>j. the (map_of ?files (case_file j))) [1..<k]"
  let ?texts = "filter (\<lambda>t. t \<noteq> [])
                  (map (\<lambda>html. extract_section_from_html select html CaseStudy) ?pages)"
  have len: "length ?pages = k - 1" by simp
  have p1: "\<forall>j < length ?pages. map_of ?files (case_file (Suc j)) = Some (?pages ! j)"
  proof (intro allI impI)
    fix j assume "j < length ?pages"
    then have j: "j < k - 1" by simp
    then have "map_of ?files (case_file (Suc j)) \<noteq> None" using k(3) by simp
    moreover have "?pages ! j = the (map_of ?files (case_file (Suc j)))"
      using j by (simp add: nth_map_upt del: upt_Suc)
    ultimately show "map_of ?files (case_file (Suc j)) = Some (?pages ! j)" by auto
  qed
  have p2: "map_of ?files (case_file (Suc (length ?pages))) = None"
    using k(1,2) by simp
  have scan: "scan_case_studies select ?files (Suc 0) [] = Some ?texts"
    using scan_to_gap [OF k(2), of 1 select "[]"] k(1,3) by (simp add: comp_def)
  have p3: "\<exists>keys d' x.
        extract_and_tag select parse_url url timestamp (Some d)
          = Some (ExtractSuccess keys, Some d') \<and>
        extracted_json d' = Some x \<and>
        map_of (sections x) ''case_study'' =
          (if ?texts = [] then None else Some (py_join (ustr '' '') ?texts))"
    by (rule extract_and_tag_case_study [OF scan])
  from p1 p2 p3 show ?thesis by blast
qed

theorem case_study_section_witness:
  "extract_and_tag select_all demo_parse_url (ustr ''https://a.com'') ''t'' (Some pages_dir)
     = Some (ExtractSuccess [''homepage'', ''navbar'', ''footer'', ''case_study''],
         Some (pages_dir\<lparr>extracted_json := Some
                 \<lparr>ex_website = ustr ''https://a.com'', ex_domain = ustr ''a.com'',
                  ex_crawl_timestamp = ''t'',
                  sections = [(''homepage'', ustr ''page''), (''navbar'', ustr ''page''),
                              (''footer'', ustr ''page''),
                              (''case_study'', ustr ''one three'')]\<rparr>\<rparr>)) \<and>
   (\<exists>pages.
     (\<forall>j < length pages. map_of (html_files pages_dir) (case_file (Suc j)) = Some (pages ! j)) \<and>
     map_of (html_files pages_dir) (case_file (Suc (length pages))) = None \<and>
     (\<exists>keys d' x.
        extract_and_tag select_all demo_parse_url (ustr ''https://a.com'') ''t'' (Some pages_dir)
          = Some (ExtractSuccess keys, Some d') \<and>
        extracted_json d' = Some x \<and>
        map_of (sections x) ''case_study'' =
          (if filter (\<lambda>t. t \<noteq> [])
                (map (\<lambda>html. extract_section_from_html select_all html CaseStudy) pages) = []
           then None
           else Some (py_join (ustr '' '')
                  (filter (\<lambda>t. t \<noteq> [])
                     (map (\<lambda>html. extract_section_from_html select_all html CaseStudy) pages))))))"
proof -
  have e: "extract_and_tag select_all demo_parse_url (ustr ''https://a.com'') ''t'' (Some pages_dir)
     = Some (ExtractSuccess [''homepage'', ''navbar'', ''footer'', ''case_study''],
         Some (pages_dir\<lparr>extracted_json := Some
                 \<lparr>ex_website = ustr ''https://a.com'', ex_domain = ustr ''a.com'',
                  ex_crawl_timestamp = ''t'',
                  sections = [(''homepage'', ustr ''page''), (''navbar'', ustr ''page''),
                              (''footer'', ustr ''page''),
                              (''case_study'', ustr ''one three'')]\<rparr>\<rparr>))"
    by (simp add: extract_simps select_all_def pages_dir_def demo_parse_url_def)
  show ?thesis
    by (rule conjI [OF e case_study_section
          [of pages_dir select_all demo_parse_url "ustr ''https://a.com''" "''t''"]])
qed

section \<open>The Transform Stage\<close>

text \<open>
  C3. When the section map and the crawl metadata of a site both exist,
  \<open>transform_to_standard\<close> emits one Record per section key, in order and with the
  section's content (empty or not). Every Record carries the same \<open>isActive\<close>: it is true
  exactly when the metadata has a \<open>homepage\<close> entry whose recorded status is 200 and some
  section has non-empty content; and every Record carries the timestamp of the run.
\<close>

theorem transform_records:
  assumes "extracted_json d = Some x" and "metadata_json d = Some m"
  shows "\<exists>records.
           transform_to_standard url timestamp (Some d)
             = (TransformSuccess (length (sections x)), Some records) \<and>
           map section_name records = map fst (sections x) \<and>
           map content records = map snd (sections x) \<and>
           (\<forall>r \<in> set records.
              isActive r =
                ((case map_of (pages m) ''homepage'' of
                    None \<Rightarrow> False
                  | Some (PageFetched u status n t) \<Rightarrow> status = 200
                  | Some (PageError status e) \<Rightarrow> status = 200) \<and>
                 (\<exists>c \<in> snd ` set (sections x). c \<noteq> [])) \<and>
              crawl_timestamp r = timestamp \<and> website r = url)"
proof -
  have s: "(homepage_status m = 200) =
           (case map_of (pages m) ''homepage'' of
              None \<Rightarrow> False
            | Some (PageFetched u status n t) \<Rightarrow> status = 200
            | Some (PageError status e) \<Rightarrow> status = 200)"
    by (simp add: homepage_status_def split: option.splits page_entry.splits)
  show ?thesis
    using assms
    by (simp add: transform_to_standard_def Let_def comp_def case_prod_unfold s list_ex_iff)
qed

lemma site_with_json:
  "extracted_json (site_with ps ss) = Some
     \<lparr>ex_website = ustr ''https://a.com'', ex_domain = ustr ''a.com'',
      ex_crawl_timestamp = ''t0'', sections = ss\<rparr>"
  "metadata_json (site_with ps ss) = Some
     \<lparr>meta_website = ustr ''https://a.com'', meta_domain = ustr ''a.com'',
      meta_crawl_timestamp = ''t0'', pages = ps\<rparr>"
  by (simp_all add: site_with_def)

theorem transform_records_witness:
  "(\<exists>records.
      transform_to_standard (ustr ''https://a.com'') ''t1''
          (Some (site_with [(''homepage'', PageFetched (ustr ''https://a.com'') 200 4 ''t0'')]
                   [(''homepage'', ustr ''page''), (''navbar'', [])]))
        = (TransformSuccess 2, Some records) \<and>
      map section_name records = [''homepage'', ''navbar''] \<and>
      map content records = [ustr ''page'', []] \<and>
      (\<forall>r \<in> set records.
         isActive r \<and> crawl_timestamp r = ''t1'' \<and> website r = ustr ''https://a.com'')) \<and>
   (\<exists>records.
      transform_to_standard (ustr ''https://a.com'') ''t1''
          (Some (site_with [(''homepage'', PageFetched (ustr ''https://a.com'') 404 0 ''t0'')]
                   [(''homepage'', ustr ''page''), (''navbar'', [])]))
        = (TransformSuccess 2, Some records) \<and>
      map section_name records = [''homepage'', ''navbar''] \<and>
      (\<forall>r \<in> set records. \<not> isActive r)) \<and>
   (\<exists>records.
      transform_to_standard (ustr ''https://a.com'') ''t1''
          (Some (site_with [(''homepage'', PageError 0 ''timed out'')]
                   [(''homepage'', ustr ''page''), (''navbar'', [])]))
        = (TransformSuccess 2, Some records) \<and>
      map section_name records = [''homepage'', ''navbar''] \<and>
      (\<forall>r \<in> set records. \<not> isActive r)) \<and>
   (\<exists>records.
      transform_to_standard (ustr ''https://a.com'') ''t1''
          (Some (site_with [] [(''homepage'', ustr ''page''), (''navbar'', [])]))
        = (TransformSuccess 2, Some records) \<and>
      map section_name records = [''homepage'', ''navbar''] \<and>
      (\<forall>r \<in> set records. \<not> isActive r)) \<and>
   (\<exists>records.
      transform_to_standard (ustr ''https://a.com'') ''t1''
          (Some (site_with [(''homepage'', PageFetched (ustr ''https://a.com'') 200 4 ''t0'')]
                   [(''homepage'', []), (''navbar'', [])]))
        = (TransformSuccess 2, Some records) \<and>
      map section_name records = [''homepage'', ''navbar''] \<and>
      (\<forall>r \<in> set records. \<not> isActive r))"
proof -
  have p: "ustr ''page'' \<noteq> []"
    by (simp add: ustr_def)
  have a: "\<exists>records.
      transform_to_standard (ustr ''https://a.com'') ''t1''
          (Some (site_with [(''homepage'', PageFetched (ustr ''https://a.com'') 200 4 ''t0'')]
                   [(''homepage'', ustr ''page''), (''navbar'', [])]))
        = (TransformSuccess 2, Some records) \<and>
      map section_name records = [''homepage'', ''navbar''] \<and>
      map content records = [ustr ''page'', []] \<and>
      (\<forall>r \<in> set records.
         isActive r \<and> crawl_timestamp r = ''t1'' \<and> website r = ustr ''https://a.com'')"
    using transform_records [OF site_with_json, of "ustr ''https://a.com''" "''t1''"
        "[(''homepage'', PageFetched (ustr ''https://a.com'') 200 4 ''t0'')]"
        "[(''homepage'', ustr ''page''), (''navbar'', [])]"] p
    by (simp add: numeral_2_eq_2)
  have b: "\<exists>records.
      transform_to_standard (ustr ''https://a.com'') ''t1''
          (Some (site_with [(''homepage'', PageFetched (ustr ''https://a.com'') 404 0 ''t0'')]
                   [(''homepage'', ustr ''page''), (''navbar'', [])]))
        = (TransformSuccess 2, Some records) \<and>
      map section_name records = [''homepage'', ''navbar''] \<and>
      (\<forall>r \<in> set records. \<not> isActive r)"
    using transform_records [OF site_with_json, of "ustr ''https://a.com''" "''t1''"
        "[(''homepage'', PageFetched (ustr ''https://a.com'') 404 0 ''t0'')]"
        "[(''homepage'', ustr ''page''), (''navbar'', [])]"]
    by (auto simp: numeral_2_eq_2)
  have c: "\<exists>records.
      transform_to_standard (ustr ''https://a.com'') ''t1''
          (Some (site_with [(''homepage'', PageError 0 ''timed out'')]
                   [(''homepage'', ustr ''page''), (''navbar'', [])]))
        = (TransformSuccess 2, Some records) \<and>
      map section_name records = [''homepage'', ''navbar''] \<and>
      (\<forall>r \<in> set records. \<not> isActive r)"
    using transform_records [OF site_with_json, of "ustr ''https://a.com''" "''t1''"
        "[(''homepage'', PageError 0 ''timed out'')]"
        "[(''homepage'', ustr ''page''), (''navbar'', [])]"]
    by (auto simp: numeral_2_eq_2)
  have d: "\<exists>records.
      transform_to_standard (ustr ''https://a.com'') ''t1''
          (Some (site_with [] [(''homepage'', ustr ''page''), (''navbar'', [])]))
        = (TransformSuccess 2, Some records) \<and>
      map section_name records = [''homepage'', ''navbar''] \<and>
      (\<forall>r \<in> set records. \<not> isActive r)"
    using transform_records [OF site_with_json, of "ustr ''https://a.com''" "''t1''"
        "[]" "[(''homepage'', ustr ''page''), (''navbar'', [])]"]
    by (auto simp: numeral_2_eq_2)
  have e: "\<exists>records.
      transform_to_standard (ustr ''https://a.com'') ''t1''
          (Some (site_with [(''homepage'', PageFetched (ustr ''https://a.com'') 200 4 ''t0'')]
                   [(''homepage'', []), (''navbar'', [])]))
        = (TransformSuccess 2, Some records) \<and>
      map section_name records = [''homepage'', ''navbar''] \<and>
      (\<forall>r \<in> set records. \<not> isActive r)"
    using transform_records [OF site_with_json, of "ustr ''https://a.com''" "''t1''"
        "[(''homepage'', PageFetched (ustr ''https://a.com'') 200 4 ''t0'')]"
        "[(''homepage'', []), (''navbar'', [])]"]
    by (auto simp: numeral_2_eq_2)
  from a b c d e show ?thesis by (intro conjI)
qed

section \<open>The Aggregator\<close>

lemma load_records_fst:
  "fst (load_records processed websites (all_records, active)) =
     all_records @ concat (map (\<lambda>url. case processed (simple_domain url) of
                                        None \<Rightarrow> [] | Some records \<Rightarrow> records) websites)"
  by (induction websites arbitrary: all_records active) (auto split: option.splits)

lemma map_of_append_length:
  "map_of (append_length sl r) s =
     (if content r \<noteq> [] \<and> section_name r = s
      then Some ((case map_of sl s of None \<Rightarrow> [] | Some ls \<Rightarrow> ls) @ [length (content r)])
      else map_of sl s)"
  by (simp add: append_length_def update_conv')

lemma map_of_foldl_append_length:
  "map_of (foldl append_length sl recs) s =
     (case map_of sl s of
        None \<Rightarrow>
          if filter (\<lambda>r. content r \<noteq> [] \<and> section_name r = s) recs = [] then None
          else Some (map (\<lambda>r. length (content r))
                       (filter (\<lambda>r. content r \<noteq> [] \<and> section_name r = s) recs))
      | Some ls \<Rightarrow>
          Some (ls @ map (\<lambda>r. length (content r))
                       (filter (\<lambda>r. content r \<noteq> [] \<and> section_name r = s) recs)))"
proof (induction recs arbitrary: sl)
  case Nil
  then show ?case by (simp split: option.splits)
next
  case (Cons r recs)
  show ?case
    by (simp add: Cons.IH map_of_append_length split: option.splits)
qed

lemma distinct_foldl_append_length:
  "distinct (map fst sl) \<Longrightarrow> distinct (map fst (foldl append_length sl recs))"
  by (induction recs arbitrary: sl) (simp_all add: append_length_def distinct_update)

lemma section_lengths_nonempty:
  "(s, ls) \<in> set (section_lengths_of recs) \<Longrightarrow> ls \<noteq> []"
proof -
  assume a: "(s, ls) \<in> set (section_lengths_of recs)"
  have "distinct (map fst (section_lengths_of recs))"
    by (simp add: section_lengths_of_def distinct_foldl_append_length)
  with a have "map_of (section_lengths_of recs) s = Some ls" by simp
  then show "ls \<noteq> []"
    by (auto simp: section_lengths_of_def map_of_foldl_append_length split: if_splits)
qed

lemma demo_load:
  "load_records demo_processed demo_sites ([], []) =
     ([demo_record (ustr ''https://a.com'') ''homepage'' 100 True,
       demo_record (ustr ''https://a.com'') ''navbar'' 0 True,
       demo_record (ustr ''http://b.org/x'') ''homepage'' 200 False,
       demo_record (ustr ''c.net'') ''homepage'' 300 True],
      [(ustr ''https://a.com'', True), (ustr ''http://b.org/x'', False), (ustr ''c.net'', True)])"
  by (simp add: demo_sites_def simple_domain_def py_split_def ustr_def demo_processed_def
        demo_record_def)

text \<open>
  C4. When some configured site has a stored, non-empty Record list, the aggregation
  succeeds and its Summary satisfies
  \<open>active_websites + inactive_websites = total_websites_processed\<close>.
\<close>

theorem active_plus_inactive:
  assumes "url \<in> set websites" and "processed (simple_domain url) = Some records"
    and "records \<noteq> []"
  shows "\<exists>m. compute_and_save_metrics websites processed timestamp
               = (AggregateSuccess m, Some m) \<and>
             active_websites m + inactive_websites m = total_websites_processed m"
proof -
  obtain all_records active where
    l: "load_records processed websites ([], []) = (all_records, active)"
    by (cases "load_records processed websites ([], [])")
  have "all_records = concat (map (\<lambda>url. case processed (simple_domain url) of
                                             None \<Rightarrow> [] | Some records \<Rightarrow> records) websites)"
    using load_records_fst [of processed websites "[]" "[]"] l by simp
  with assms have "all_records \<noteq> []"
    by (force split: option.splits)
  with l show ?thesis
    by (simp add: compute_and_save_metrics_def Let_def case_prod_unfold
          sum_length_filter_compl)
qed

theorem active_plus_inactive_witness:
  "ustr ''https://a.com'' \<in> set demo_sites \<and>
   (\<exists>m. compute_and_save_metrics demo_sites demo_processed ''t''
          = (AggregateSuccess m, Some m) \<and>
        active_websites m = 2 \<and> inactive_websites m = 1 \<and> total_websites_processed m = 3 \<and>
        active_websites m + inactive_websites m = total_websites_processed m)"
proof -
  have u: "ustr ''https://a.com'' \<in> set demo_sites"
    by (simp add: demo_sites_def)
  have p: "demo_processed (simple_domain (ustr ''https://a.com''))
             = Some [demo_record (ustr ''https://a.com'') ''homepage'' 100 True,
                     demo_record (ustr ''https://a.com'') ''navbar'' 0 True]"
    by (simp add: simple_domain_def py_split_def ustr_def demo_processed_def)
  have n: "[demo_record (ustr ''https://a.com'') ''homepage'' 100 True,
            demo_record (ustr ''https://a.com'') ''navbar'' 0 True] \<noteq> []"
    by simp
  show ?thesis
    using u p n
      active_plus_inactive [of "ustr ''https://a.com''" demo_sites demo_processed _ "''t''"]
    by (auto simp: compute_and_save_metrics_def demo_load Let_def)
qed

section \<open>Floats: division and rounding to two decimals\<close>

text \<open>\<open>round_div\<close> gives an integer nearest to the quotient.\<close>

lemma round_div_nearest:
  assumes "0 < b"
  shows "\<bar>rat_of_nat (round_div a b) - of_nat a / of_nat b\<bar> \<le> 1 / 2"
proof -
  let ?q = "a div b" and ?r = "a mod b"
  have b: "(0::rat) < of_nat b" using assms by simp
  have "a = b * ?q + ?r" by simp
  then have "rat_of_nat a = of_nat b * of_nat ?q + of_nat ?r"
    by (metis of_nat_add of_nat_mult)
  then have q: "rat_of_nat a / of_nat b = of_nat ?q + of_nat ?r / of_nat b"
    using b by (simp add: field_simps)
  have r0: "(0::rat) \<le> of_nat ?r / of_nat b" using b by simp
  show ?thesis
  proof (cases "2 * ?r < b")
    case True
    then have "2 * rat_of_nat ?r < of_nat b"
      by (metis of_nat_less_iff of_nat_mult of_nat_numeral)
    then have "rat_of_nat ?r / of_nat b \<le> 1 / 2" using b by (simp add: field_simps)
    with True r0 q show ?thesis by (simp add: round_div_def)
  next
    case False
    show ?thesis
    proof (cases "b < 2 * ?r")
      case True
      then have "rat_of_nat b < 2 * of_nat ?r"
        by (metis of_nat_less_iff of_nat_mult of_nat_numeral)
      then have h: "1 / 2 \<le> rat_of_nat ?r / of_nat b" using b by (simp add: field_simps)
      have "?r < b" using assms by simp
      then have "rat_of_nat ?r < of_nat b" by simp
      then have "rat_of_nat ?r / of_nat b < 1" using b by simp
      with h True False q show ?thesis by (simp add: round_div_def)
    next
      case e: False
      with False have "2 * ?r = b" by simp
      then have "2 * rat_of_nat ?r = of_nat b"
        by (metis of_nat_mult of_nat_numeral)
      then have "rat_of_nat ?r / of_nat b = 1 / 2" using b by (simp add: field_simps)
      with False e q show ?thesis by (simp add: round_div_def)
    qed
  qed
qed

text \<open>
  \<open>round(x, 2)\<close> is the float of a number of hundredths \<open>c / 100\<close> that lies within half a
  hundredth of \<open>x\<close>.
\<close>

lemma py_round2_hundredths:
  "\<exists>c. py_round2 (m, k) = true_div c 100 \<and>
        \<bar>rat_of_nat c / 100 - float_value (m, k)\<bar> \<le> 1 / 200"
proof (cases "0 \<le> k")
  case True
  then show ?thesis
    by (intro exI [of _ "100 * m * 2 ^ nat k"]) (simp add: py_round2_def float_value_def)
next
  case False
  let ?c = "round_div (100 * m) (2 ^ nat (- k))"
  have "\<bar>rat_of_nat ?c - of_nat (100 * m) / of_nat (2 ^ nat (- k))\<bar> \<le> 1 / 2"
    by (rule round_div_nearest) simp
  then have "\<bar>rat_of_nat ?c / 100 - of_nat m / of_nat (2 ^ nat (- k))\<bar> \<le> 1 / 200"
    by (simp add: abs_le_iff field_simps)
  with False show ?thesis
    by (intro exI [of _ ?c]) (simp add: py_round2_def float_value_def)
qed

text \<open>\<open>floor_log2\<close> is the binary exponent of the quotient.\<close>

lemma bit_length_pos: "0 < n \<Longrightarrow> 0 < bit_length n"
  by (subst bit_length.simps) simp

lemma bit_length_bounds:
  "0 < n \<Longrightarrow> 2 ^ (bit_length n - 1) \<le> n \<and> n < 2 ^ bit_length n"
proof (induction n rule: bit_length.induct)
  case (1 n)
  have s: "bit_length n = Suc (bit_length (n div 2))"
    using "1.prems" by (subst bit_length.simps) simp
  show ?case
  proof (cases "n div 2 = 0")
    case True
    with "1.prems" have n: "n = 1" by (simp add: div_eq_0_iff)
    have "bit_length (n div 2) = 0"
      using True by (subst bit_length.simps) simp
    with s have "bit_length n = Suc 0" by simp
    with n show ?thesis by simp
  next
    case False
    then have p: "0 < n div 2" by simp
    from "1.IH" [OF _ p] "1.prems"
    have ih: "2 ^ (bit_length (n div 2) - 1) \<le> n div 2" "n div 2 < 2 ^ bit_length (n div 2)"
      by auto
    obtain j where j: "bit_length (n div 2) = Suc j"
      using bit_length_pos [OF p] by (cases "bit_length (n div 2)") auto
    have "2 * 2 ^ j \<le> 2 * (n div 2)" using ih(1) j by simp
    also have "\<dots> \<le> n" by simp
    finally have lo: "2 ^ Suc j \<le> n" by simp
    have "n < 2 * (n div 2) + 2" by arith
    also have "\<dots> \<le> 2 * 2 ^ Suc j" using ih(2) j by simp
    finally have hi: "n < 2 ^ Suc (Suc j)" by simp
    from lo hi show ?thesis by (simp add: s j)
  qed
qed

lemma floor_log2_bounds:
  assumes "0 < a" and "0 < b"
  shows "(0 \<le> floor_log2 a b \<longrightarrow>
            b * 2 ^ nat (floor_log2 a b) \<le> a \<and> a < b * 2 ^ Suc (nat (floor_log2 a b))) \<and>
         (floor_log2 a b < 0 \<longrightarrow>
            b \<le> a * 2 ^ nat (- floor_log2 a b) \<and> a * 2 ^ (nat (- floor_log2 a b) - 1) < b)"
proof -
  obtain la where la: "bit_length a = Suc la"
    using bit_length_pos [OF assms(1)] by (cases "bit_length a") auto
  obtain lb where lb: "bit_length b = Suc lb"
    using bit_length_pos [OF assms(2)] by (cases "bit_length b") auto
  from bit_length_bounds [OF assms(1)] la have a: "2 ^ la \<le> a" "a < 2 * 2 ^ la" by auto
  from bit_length_bounds [OF assms(2)] lb have b: "2 ^ lb \<le> b" "b < 2 * 2 ^ lb" by auto
  show ?thesis
  proof (cases "lb \<le> la")
    case True
    then obtain d where d: "la = lb + d" using le_Suc_ex by blast
    have up: "a < b * 2 ^ Suc d"
    proof -
      have "a < 2 * 2 ^ (lb + d)" using a(2) d by simp
      also have "\<dots> = 2 ^ lb * 2 ^ Suc d" by (simp add: power_add)
      also have "\<dots> \<le> b * 2 ^ Suc d" using b(1) by (rule mult_le_mono1)
      finally show ?thesis .
    qed
    show ?thesis
    proof (cases "b * 2 ^ d \<le> a")
      case c: True
      then have "floor_log2 a b = int d"
        using True by (simp add: floor_log2_def la lb d)
      with c up show ?thesis by simp
    next
      case c: False
      then have e: "floor_log2 a b = int d - 1"
        using True by (simp add: floor_log2_def la lb d)
      show ?thesis
      proof (cases d)
        case 0
        have "b < 2 * 2 ^ la" using b(2) d 0 by simp
        also have "\<dots> \<le> 2 * a" using a(1) by simp
        finally have "b \<le> a * 2" by simp
        with c e 0 show ?thesis by simp
      next
        case (Suc d')
        have "b * 2 ^ d' < (2 * 2 ^ lb) * 2 ^ d'" using b(2) by simp
        also have "\<dots> = 2 ^ la" by (simp add: d Suc power_add)
        also have "\<dots> \<le> a" by (rule a(1))
        finally have "b * 2 ^ d' \<le> a" by simp
        moreover have "a < b * 2 ^ Suc d'" using c Suc by simp
        ultimately show ?thesis using e Suc by simp
      qed
    qed
  next
    case False
    then obtain d where d: "lb = la + Suc d"
      by (metis add_Suc_right less_imp_Suc_add not_le)
    have lo: "a * 2 ^ d < b"
    proof -
      have "a * 2 ^ d < (2 * 2 ^ la) * 2 ^ d" using a(2) by simp
      also have "\<dots> = 2 ^ lb" by (simp add: d power_add)
      also have "\<dots> \<le> b" by (rule b(1))
      finally show ?thesis .
    qed
    show ?thesis
    proof (cases "b \<le> a * 2 ^ Suc d")
      case c: True
      then have "floor_log2 a b = - int (Suc d)"
        using False by (simp add: floor_log2_def la lb d)
      with c lo show ?thesis by (simp add: nat_add_distrib)
    next
      case c: False
      then have e: "floor_log2 a b = - int (Suc d) - 1"
        using False by (simp add: floor_log2_def la lb d)
      have "b < 2 * 2 ^ (la + Suc d)" using b(2) d by simp
      also have "\<dots> = 2 ^ la * 2 ^ Suc (Suc d)" by (simp add: power_add)
      also have "\<dots> \<le> a * 2 ^ Suc (Suc d)" using a(1) by (rule mult_le_mono1)
      finally have "b \<le> a * 2 ^ Suc (Suc d)" by simp
      moreover have "a * 2 ^ Suc d < b" using c by simp
      ultimately show ?thesis using e by (simp add: nat_add_distrib)
    qed
  qed
qed

text \<open>
  The float of a quotient differs from it by at most half a unit in the last of its 53
  bits.
\<close>

lemma abs_diff_divide:
  fixes x y c :: rat
  assumes "0 < c"
  shows "\<bar>x - y * c\<bar> / c = \<bar>x / c - y\<bar>"
proof -
  have "x / c - y = (x - y * c) / c" using assms by (simp add: field_simps)
  then have "\<bar>x / c - y\<bar> = \<bar>x - y * c\<bar> / \<bar>c\<bar>" by (simp only: abs_divide)
  with assms show ?thesis by simp
qed

lemma abs_diff_times:
  fixes x y c :: rat
  assumes "0 < c"
  shows "\<bar>x - y / c\<bar> * c = \<bar>x * c - y\<bar>"
proof -
  have "x * c - y = (x - y / c) * c" using assms by (simp add: field_simps)
  then have "\<bar>x * c - y\<bar> = \<bar>x - y / c\<bar> * \<bar>c\<bar>" by (simp only: abs_mult)
  with assms show ?thesis by simp
qed

lemma half_ulp_small:
  fixes q :: rat
  assumes "2 ^ n \<le> q * 2 ^ j"
  shows "(1 / 2) / 2 ^ j \<le> q / 2 ^ Suc n"
proof -
  from assms have "2 ^ n / (2 ^ Suc n * 2 ^ j) \<le> q * 2 ^ j / (2 ^ Suc n * 2 ^ j)"
    by (rule divide_right_mono) simp
  moreover have "(2::rat) ^ n / (2 ^ Suc n * 2 ^ j) = (1 / 2) / 2 ^ j" by simp
  moreover have "q * 2 ^ j / (2 ^ Suc n * 2 ^ j) = q / 2 ^ Suc n" by simp
  ultimately show ?thesis by simp
qed

lemma half_ulp_large:
  fixes q :: rat
  assumes "2 ^ i * 2 ^ n \<le> q"
  shows "(1 / 2) * 2 ^ i \<le> q / 2 ^ Suc n"
proof -
  from assms have "2 ^ i * 2 ^ n / 2 ^ Suc n \<le> q / 2 ^ Suc n"
    by (rule divide_right_mono) simp
  moreover have "(2::rat) ^ i * 2 ^ n / 2 ^ Suc n = (1 / 2) * 2 ^ i" by simp
  ultimately show ?thesis by simp
qed

lemma float_value_scaled:
  "0 < a \<Longrightarrow> floor_log2 a b \<le> 52 \<Longrightarrow>
   float_value (true_div a b)
     = rat_of_nat (round_div (a * 2 ^ nat (52 - floor_log2 a b)) b) / 2 ^ nat (52 - floor_log2 a b)"
  by (cases "floor_log2 a b = 52") (simp_all add: true_div_def float_value_def)

lemma float_value_large:
  "0 < a \<Longrightarrow> \<not> floor_log2 a b \<le> 52 \<Longrightarrow>
   float_value (true_div a b)
     = rat_of_nat (round_div a (b * 2 ^ nat (floor_log2 a b - 52))) * 2 ^ nat (floor_log2 a b - 52)"
  by (simp add: true_div_def float_value_def)

lemma scaled_quotient_large:
  assumes "0 < a" and "0 < b" and "floor_log2 a b \<le> 52"
  shows "b * 2 ^ 52 \<le> a * 2 ^ nat (52 - floor_log2 a b)"
proof (cases "0 \<le> floor_log2 a b")
  case True
  let ?e = "nat (floor_log2 a b)"
  have j: "nat (52 - floor_log2 a b) = 52 - ?e" using True by simp
  have e: "?e \<le> 52" using assms(3) by simp
  have "b * 2 ^ ?e \<le> a" using floor_log2_bounds [OF assms(1,2)] True by simp
  then have "b * 2 ^ ?e * 2 ^ (52 - ?e) \<le> a * 2 ^ (52 - ?e)" by (rule mult_le_mono1)
  moreover have "(2::nat) ^ ?e * 2 ^ (52 - ?e) = 2 ^ 52"
    using e by (simp add: power_add [symmetric])
  ultimately show ?thesis by (simp add: j mult.assoc)
next
  case False
  let ?j = "nat (- floor_log2 a b)"
  have j: "nat (52 - floor_log2 a b) = ?j + 52" using False by simp
  have "b \<le> a * 2 ^ ?j" using floor_log2_bounds [OF assms(1,2)] False by simp
  then have "b * 2 ^ 52 \<le> a * 2 ^ ?j * 2 ^ 52" by (rule mult_le_mono1)
  then show ?thesis by (simp add: j power_add mult.assoc)
qed

lemma true_div_close:
  assumes "0 < a" and "0 < b"
  shows "\<bar>float_value (true_div a b) - of_nat a / of_nat b\<bar>
           \<le> (rat_of_nat a / of_nat b) / 2 ^ 53"
proof (cases "floor_log2 a b \<le> 52")
  case True
  let ?j = "nat (52 - floor_log2 a b)"
  let ?m = "round_div (a * 2 ^ ?j) b"
  have b: "(0::rat) < of_nat b" using assms by simp
  have "\<bar>rat_of_nat ?m - of_nat (a * 2 ^ ?j) / of_nat b\<bar> \<le> 1 / 2"
    using assms(2) by (rule round_div_nearest)
  then have "\<bar>rat_of_nat ?m - (of_nat a / of_nat b) * 2 ^ ?j\<bar> \<le> 1 / 2" by simp
  then have "\<bar>rat_of_nat ?m - (of_nat a / of_nat b) * 2 ^ ?j\<bar> / 2 ^ ?j \<le> (1 / 2) / 2 ^ ?j"
    by (rule divide_right_mono) simp
  moreover have "\<bar>rat_of_nat ?m - (of_nat a / of_nat b) * 2 ^ ?j\<bar> / 2 ^ ?j
        = \<bar>rat_of_nat ?m / 2 ^ ?j - of_nat a / of_nat b\<bar>"
    by (rule abs_diff_divide) simp
  ultimately have 1: "\<bar>rat_of_nat ?m / 2 ^ ?j - of_nat a / of_nat b\<bar> \<le> (1 / 2) / 2 ^ ?j"
    by simp
  have "rat_of_nat (b * 2 ^ 52) \<le> of_nat (a * 2 ^ ?j)"
    using scaled_quotient_large [OF assms True] by (simp only: of_nat_le_iff)
  then have "rat_of_nat b * 2 ^ 52 \<le> of_nat a * 2 ^ ?j" by simp
  then have "(2::rat) ^ 52 \<le> (of_nat a / of_nat b) * 2 ^ ?j"
    using b by (simp add: field_simps)
  then have "(1 / 2) / 2 ^ ?j \<le> (rat_of_nat a / of_nat b) / 2 ^ 53"
    using half_ulp_small [of 52 "rat_of_nat a / of_nat b" ?j] by simp
  with 1 show ?thesis
    by (simp only: float_value_scaled [OF assms(1) True])
next
  case False
  let ?i = "nat (floor_log2 a b - 52)"
  let ?m = "round_div a (b * 2 ^ ?i)"
  have b: "(0::rat) < of_nat b" using assms by simp
  have "\<bar>rat_of_nat ?m - of_nat a / of_nat (b * 2 ^ ?i)\<bar> \<le> 1 / 2"
    by (rule round_div_nearest) (use assms(2) in simp)
  then have "\<bar>rat_of_nat ?m - (of_nat a / of_nat b) / 2 ^ ?i\<bar> \<le> 1 / 2" by simp
  then have A: "\<bar>rat_of_nat ?m - (of_nat a / of_nat b) / 2 ^ ?i\<bar> * 2 ^ ?i \<le> (1 / 2) * 2 ^ ?i"
    by (rule mult_right_mono) simp
  have B: "\<bar>rat_of_nat ?m - (of_nat a / of_nat b) / 2 ^ ?i\<bar> * 2 ^ ?i
        = \<bar>rat_of_nat ?m * 2 ^ ?i - of_nat a / of_nat b\<bar>"
    by (rule abs_diff_times) simp
  have 1: "\<bar>rat_of_nat ?m * 2 ^ ?i - of_nat a / of_nat b\<bar> \<le> (1 / 2) * 2 ^ ?i"
    using A by (simp only: B)
  have e: "nat (floor_log2 a b) = ?i + 52" using False by simp
  have "b * 2 ^ nat (floor_log2 a b) \<le> a"
    using floor_log2_bounds [OF assms] False by simp
  then have "rat_of_nat (b * 2 ^ (?i + 52)) \<le> of_nat a"
    by (simp only: e of_nat_le_iff)
  then have "rat_of_nat b * (2 ^ ?i * 2 ^ 52) \<le> of_nat a" by (simp add: power_add)
  then have "(2::rat) ^ ?i * 2 ^ 52 \<le> of_nat a / of_nat b"
    using b by (simp add: field_simps)
  then have "(1 / 2) * 2 ^ ?i \<le> (rat_of_nat a / of_nat b) / 2 ^ 53"
    using half_ulp_large [of ?i 52 "rat_of_nat a / of_nat b"] by simp
  with 1 show ?thesis
    by (simp only: float_value_large [OF assms(1) False])
qed

text \<open>
  The rounded mean of positive lengths is within half a hundredth of the exact mean, up
  to the two conversions to a float.
\<close>

lemma round_mean_close:
  assumes "lengths \<noteq> []" and "0 < sum_list lengths"
  shows "\<bar>round_mean lengths - of_nat (sum_list lengths) / of_nat (length lengths)\<bar>
           \<le> 1 / 200 + (3 * (of_nat (sum_list lengths) / of_nat (length lengths)) + 1) / 2 ^ 53"
proof -
  let ?t = "sum_list lengths" and ?n = "length lengths"
  define mu where "mu = rat_of_nat ?t / of_nat ?n"
  have n: "0 < ?n" using assms(1) by simp
  have mu: "0 < mu" using assms(2) n by (simp add: mu_def)
  show ?thesis
  proof (cases "?n dvd ?t")
    case True
    then have "?n * (?t div ?n) = ?t" by simp
    then have "rat_of_nat ?n * of_nat (?t div ?n) = of_nat ?t"
      by (metis of_nat_mult)
    then have "rat_of_nat (?t div ?n) = mu"
      using n by (simp add: mu_def field_simps)
    with True mu show ?thesis
      by (simp add: round_mean_def mu_def [symmetric])
  next
    case False
    define x where "x = float_value (true_div ?t ?n)"
    have x: "\<bar>x - mu\<bar> \<le> mu / 2 ^ 53"
      unfolding x_def mu_def by (rule true_div_close [OF assms(2) n])
    obtain m k where mk: "true_div ?t ?n = (m, k)" by (cases "true_div ?t ?n")
    obtain c where c: "py_round2 (m, k) = true_div c 100"
      and cx: "\<bar>rat_of_nat c / 100 - x\<bar> \<le> 1 / 200"
      using py_round2_hundredths [of m k] by (auto simp: x_def mk)
    define y where "y = float_value (true_div c 100)"
    have y: "\<bar>y - rat_of_nat c / 100\<bar> \<le> (rat_of_nat c / 100) / 2 ^ 53"
    proof (cases "c = 0")
      case True
      then show ?thesis by (simp add: y_def true_div_def float_value_def)
    next
      case False
      then have "0 < c" by simp
      from true_div_close [OF this, of 100] show ?thesis by (simp add: y_def)
    qed
    have e: "mu / 2 ^ 53 \<le> mu" using mu by (simp add: field_simps)
    have a1: "x - mu \<le> mu / 2 ^ 53" using x by (rule abs_le_D1)
    have a2: "rat_of_nat c / 100 - x \<le> 1 / 200" using cx by (rule abs_le_D1)
    from a1 a2 e have "rat_of_nat c / 100 \<le> 2 * mu + 1" by linarith
    then have "(rat_of_nat c / 100) / 2 ^ 53 \<le> (2 * mu + 1) / 2 ^ 53"
      by (rule divide_right_mono) simp
    with y have y': "\<bar>y - rat_of_nat c / 100\<bar> \<le> (2 * mu + 1) / 2 ^ 53" by simp
    have "\<bar>y - mu\<bar> \<le> \<bar>y - rat_of_nat c / 100\<bar> + \<bar>rat_of_nat c / 100 - x\<bar> + \<bar>x - mu\<bar>"
      by simp
    with y' cx x have "\<bar>y - mu\<bar> \<le> (2 * mu + 1) / 2 ^ 53 + 1 / 200 + mu / 2 ^ 53"
      by linarith
    also have "\<dots> = 1 / 200 + (3 * mu + 1) / 2 ^ 53" by (simp add: field_simps)
    finally have "\<bar>y - mu\<bar> \<le> 1 / 200 + (3 * mu + 1) / 2 ^ 53" .
    moreover have "round_mean lengths = y"
      using False by (simp add: round_mean_def y_def mk c)
    ultimately show ?thesis by (simp add: mu_def)
  qed
qed

text \<open>
  Values, as CPython computes them. \<open>107 / 40\<close> is the float just below 2.675, and its
  rounding is the float of 2.67, not of 2.68; \<open>9 / 8\<close> is 1.125 exactly, and the tie goes to
  the even digit, 1.12.
\<close>

lemma floor_log2_107_40: "floor_log2 107 40 = 1"
  by (simp add: floor_log2_def bit_length.simps)

lemma true_div_107_40: "true_div 107 40 = (6023564501608038, - 51)"
  by (simp add: true_div_def floor_log2_107_40 round_div_def)

lemma floor_log2_267_100: "floor_log2 267 100 = 1"
  by (simp add: floor_log2_def bit_length.simps)

lemma true_div_267_100: "true_div 267 100 = (6012305502539612, - 51)"
  by (simp add: true_div_def floor_log2_267_100 round_div_def)

lemma round2_107_40: "py_round2 (true_div 107 40) = true_div 267 100"
  by (simp add: true_div_107_40 py_round2_def round_div_def)

lemma floor_log2_9_8: "floor_log2 9 8 = 0"
  by (simp add: floor_log2_def bit_length.simps)

lemma true_div_9_8: "true_div 9 8 = (5066549580791808, - 52)"
  by (simp add: true_div_def floor_log2_9_8 round_div_def)

lemma round2_9_8: "py_round2 (true_div 9 8) = true_div 112 100"
  by (simp add: true_div_9_8 py_round2_def round_div_def)

lemma floor_log2_7_3: "floor_log2 7 3 = 1"
  by (simp add: floor_log2_def bit_length.simps)

lemma true_div_7_3: "true_div 7 3 = (5254199565265579, - 51)"
  by (simp add: true_div_def floor_log2_7_3 round_div_def)

lemma floor_log2_233_100: "floor_log2 233 100 = 1"
  by (simp add: floor_log2_def bit_length.simps)

lemma true_div_233_100: "true_div 233 100 = (5246693565886628, - 51)"
  by (simp add: true_div_def floor_log2_233_100 round_div_def)

lemma round2_7_3: "py_round2 (true_div 7 3) = (5246693565886628, - 51)"
  by (simp add: true_div_7_3 py_round2_def round_div_def true_div_233_100)

lemma floor_log2_11_2: "floor_log2 11 2 = 2"
  by (simp add: floor_log2_def bit_length.simps)

lemma true_div_11_2: "true_div 11 2 = (6192449487634432, - 50)"
  by (simp add: true_div_def floor_log2_11_2 round_div_def)

lemma floor_log2_550_100: "floor_log2 550 100 = 2"
  by (simp add: floor_log2_def bit_length.simps)

lemma true_div_550_100: "true_div 550 100 = (6192449487634432, - 50)"
  by (simp add: true_div_def floor_log2_550_100 round_div_def)

lemma round2_11_2: "py_round2 (true_div 11 2) = (6192449487634432, - 50)"
  by (simp add: true_div_11_2 py_round2_def round_div_def true_div_550_100)

section \<open>The statistics of the Summary\<close>

lemma stats_load:
  "load_records stats_processed stats_sites ([], []) =
     ([demo_record (ustr ''https://e.com'') ''homepage'' 2 True,
       demo_record (ustr ''https://e.com'') ''footer'' 5 True,
       demo_record (ustr ''https://f.com'') ''homepage'' 2 True,
       demo_record (ustr ''https://f.com'') ''footer'' 0 True,
       demo_record (ustr ''https://g.com'') ''homepage'' 3 True,
       demo_record (ustr ''https://g.com'') ''footer'' 6 True],
      [(ustr ''https://e.com'', True), (ustr ''https://f.com'', True),
       (ustr ''https://g.com'', True)])"
  by (simp add: stats_sites_def simple_domain_def py_split_def ustr_def stats_processed_def
        demo_record_def)

lemma sum_list_pos:
  "lengths \<noteq> [] \<Longrightarrow> \<forall>n \<in> set lengths. 0 < n \<Longrightarrow> 0 < sum_list (lengths :: nat list)"
  by (cases lengths) auto

lemma stats_records:
  "concat (map (\<lambda>url. case stats_processed (simple_domain url) of
                         None \<Rightarrow> [] | Some records \<Rightarrow> records) stats_sites)
   = [demo_record (ustr ''https://e.com'') ''homepage'' 2 True,
      demo_record (ustr ''https://e.com'') ''footer'' 5 True,
      demo_record (ustr ''https://f.com'') ''homepage'' 2 True,
      demo_record (ustr ''https://f.com'') ''footer'' 0 True,
      demo_record (ustr ''https://g.com'') ''homepage'' 3 True,
      demo_record (ustr ''https://g.com'') ''footer'' 6 True]"
  using load_records_fst [of stats_processed stats_sites "[]" "[]"] by (simp add: stats_load)

lemma demo_records:
  "concat (map (\<lambda>url. case demo_processed (simple_domain url) of
                         None \<Rightarrow> [] | Some records \<Rightarrow> records) demo_sites)
   = [demo_record (ustr ''https://a.com'') ''homepage'' 100 True,
      demo_record (ustr ''https://a.com'') ''navbar'' 0 True,
      demo_record (ustr ''http://b.org/x'') ''homepage'' 200 False,
      demo_record (ustr ''c.net'') ''homepage'' 300 True]"
  using load_records_fst [of demo_processed demo_sites "[]" "[]"] by (simp add: demo_load)

lemma avg_7_3:
  "float_value (py_round2 (true_div (sum_list [2, 2, 3]) (length [2, 2, 3::nat])))
     = 1311673391471657 / 562949953421312"
proof -
  have "sum_list [2, 2, 3::nat] = 7" "length [2, 2, 3::nat] = 3" by simp_all
  then show ?thesis
    by (simp only: round2_7_3) (simp add: float_value_def)
qed

lemma avg_11_2:
  "float_value (py_round2 (true_div (sum_list [5, 6]) (length [5, 6::nat]))) = 11 / 2"
proof -
  have "sum_list [5, 6::nat] = 11" "length [5, 6::nat] = 2" by simp_all
  then show ?thesis
    by (simp only: round2_11_2) (simp add: float_value_def)
qed

text \<open>
  C8. In the Summary of a run, the statistics of a section \<open>s\<close> are computed from the
  lengths of exactly the Records of section \<open>s\<close> with non-empty content, over all loaded
  Record lists. There is one entry per such section and none for a section without such
  a Record. The entry holds the minimum, the maximum and the number of these lengths,
  and as average the value of \<open>round(mean(lengths), 2)\<close>: the mean itself when it is whole,
  otherwise the float of the mean rounded to two decimals, which is within half a
  hundredth of the mean up to the float conversions. For the lengths 100, 200 and 300
  the entry is min 100, max 300, avg 200, count 3; for 2, 2 and 3 the average is the
  float nearest to 2.33.
\<close>

theorem content_length_stats_per_section:
  assumes "compute_and_save_metrics websites processed timestamp = (AggregateSuccess m, w)"
  shows "distinct (map fst (content_length_stats m)) \<and>
         (let lengths = map (\<lambda>r. length (content r))
                  (filter (\<lambda>r. content r \<noteq> [] \<and> section_name r = s)
                     (concat (map (\<lambda>url. case processed (simple_domain url) of
                                             None \<Rightarrow> [] | Some records \<Rightarrow> records) websites)));
              mean = rat_of_nat (sum_list lengths) / of_nat (length lengths)
          in if lengths = [] then map_of (content_length_stats m) s = None
             else \<exists>avg.
                    map_of (content_length_stats m) s
                      = Some \<lparr>st_min = Min (set lengths), st_max = Max (set lengths),
                               st_avg = avg, st_count = length lengths\<rparr> \<and>
                    avg = (if length lengths dvd sum_list lengths
                           then of_nat (sum_list lengths div length lengths)
                           else float_value (py_round2
                                  (true_div (sum_list lengths) (length lengths)))) \<and>
                    \<bar>avg - mean\<bar> \<le> 1 / 200 + (3 * mean + 1) / 2 ^ 53)"
proof -
  let ?lengths = "map (\<lambda>r. length (content r))
                  (filter (\<lambda>r. content r \<noteq> [] \<and> section_name r = s)
                     (concat (map (\<lambda>url. case processed (simple_domain url) of
                                             None \<Rightarrow> [] | Some records \<Rightarrow> records) websites)))"
  obtain all_records active where
    l: "load_records processed websites ([], []) = (all_records, active)"
    by (cases "load_records processed websites ([], [])")
  have a: "all_records = concat (map (\<lambda>url. case processed (simple_domain url) of
                                             None \<Rightarrow> [] | Some records \<Rightarrow> records) websites)"
    using load_records_fst [of processed websites "[]" "[]"] l by simp
  from assms l have c: "content_length_stats m =
      map (\<lambda>(s, lengths). (s, section_stats lengths)) (section_lengths_of all_records)"
    by (auto simp: compute_and_save_metrics_def Let_def split: if_splits)
  have d: "distinct (map fst (content_length_stats m))"
    by (simp add: c section_lengths_of_def distinct_foldl_append_length comp_def
          case_prod_unfold)
  have "map_of (content_length_stats m) s =
          map_option section_stats (map_of (section_lengths_of all_records) s)"
    by (simp add: c map_of_map)
  then have v: "map_of (content_length_stats m) s =
          (if ?lengths = [] then None else Some (section_stats ?lengths))"
    using a by (simp add: section_lengths_of_def map_of_foldl_append_length)
  have b: "?lengths \<noteq> [] \<Longrightarrow>
       \<bar>round_mean ?lengths - rat_of_nat (sum_list ?lengths) / of_nat (length ?lengths)\<bar>
         \<le> 1 / 200 + (3 * (rat_of_nat (sum_list ?lengths) / of_nat (length ?lengths)) + 1) / 2 ^ 53"
  proof -
    assume n: "?lengths \<noteq> []"
    have "\<forall>n \<in> set ?lengths. 0 < n" by auto
    with n have "0 < sum_list ?lengths" by (rule sum_list_pos)
    with n show ?thesis by (rule round_mean_close)
  qed
  show ?thesis
  proof (cases "?lengths = []")
    case True
    with d v show ?thesis by (simp add: Let_def)
  next
    case False
    have r: "round_mean ?lengths =
         (if length ?lengths dvd sum_list ?lengths
          then of_nat (sum_list ?lengths div length ?lengths)
          else float_value (py_round2 (true_div (sum_list ?lengths) (length ?lengths))))"
      by (simp only: round_mean_def)
    have "map_of (content_length_stats m) s
            = Some \<lparr>st_min = Min (set ?lengths), st_max = Max (set ?lengths),
                     st_avg = round_mean ?lengths, st_count = length ?lengths\<rparr>"
      using v False by (simp only: section_stats_def if_False)
    with d False r b [OF False] show ?thesis
      unfolding Let_def by (intro conjI) (simp_all only: if_False, blast)
  qed
qed

theorem content_length_stats_per_section_witness:
  "(\<exists>m. compute_and_save_metrics demo_sites demo_processed ''t''
          = (AggregateSuccess m, Some m) \<and>
        map_of (content_length_stats m) ''homepage''
          = Some \<lparr>st_min = 100, st_max = 300, st_avg = 200, st_count = 3\<rparr> \<and>
        map_of (content_length_stats m) ''navbar'' = None) \<and>
   (\<exists>m. compute_and_save_metrics stats_sites stats_processed ''t''
          = (AggregateSuccess m, Some m) \<and>
        map_of (content_length_stats m) ''homepage''
          = Some \<lparr>st_min = 2, st_max = 3,
                   st_avg = 1311673391471657 / 562949953421312, st_count = 3\<rparr> \<and>
        map_of (content_length_stats m) ''footer''
          = Some \<lparr>st_min = 5, st_max = 6, st_avg = 11 / 2, st_count = 2\<rparr>)"
proof -
  obtain m where
    c: "compute_and_save_metrics demo_sites demo_processed ''t'' = (AggregateSuccess m, Some m)"
    by (simp add: compute_and_save_metrics_def demo_load Let_def)
  have h: "map_of (content_length_stats m) ''homepage''
          = Some \<lparr>st_min = 100, st_max = 300, st_avg = 200, st_count = 3\<rparr>"
    using content_length_stats_per_section [OF c, of "''homepage''"]
    by (auto simp: demo_records demo_record_def Let_def numeral_3_eq_3 [symmetric])
  have n: "map_of (content_length_stats m) ''navbar'' = None"
    using content_length_stats_per_section [OF c, of "''navbar''"]
    by (simp add: demo_records demo_record_def)
  obtain m' where
    c': "compute_and_save_metrics stats_sites stats_processed ''t''
           = (AggregateSuccess m', Some m')"
    by (simp add: compute_and_save_metrics_def stats_load Let_def)
  have l1: "map (\<lambda>r. length (content r))
              (filter (\<lambda>r. content r \<noteq> [] \<and> section_name r = ''homepage'')
                 (concat (map (\<lambda>url. case stats_processed (simple_domain url) of
                                         None \<Rightarrow> [] | Some records \<Rightarrow> records) stats_sites)))
            = [2, 2, 3]"
    by (simp add: stats_records demo_record_def)
  have l2: "map (\<lambda>r. length (content r))
              (filter (\<lambda>r. content r \<noteq> [] \<and> section_name r = ''footer'')
                 (concat (map (\<lambda>url. case stats_processed (simple_domain url) of
                                         None \<Rightarrow> [] | Some records \<Rightarrow> records) stats_sites)))
            = [5, 6]"
    by (simp add: stats_records demo_record_def)
  have d1: "\<not> length [2, 2, 3::nat] dvd sum_list [2, 2, 3]"
    by (simp add: numeral_3_eq_3 [symmetric])
  have d2: "\<not> length [5, 6::nat] dvd sum_list [5, 6]"
    by (simp add: numeral_2_eq_2 [symmetric])
  have h': "map_of (content_length_stats m') ''homepage''
          = Some \<lparr>st_min = 2, st_max = 3,
                   st_avg = 1311673391471657 / 562949953421312, st_count = 3\<rparr>"
  proof -
    from content_length_stats_per_section [OF c', of "''homepage''"]
    obtain avg where
      "map_of (content_length_stats m') ''homepage''
         = Some \<lparr>st_min = Min (set [2, 2, 3]), st_max = Max (set [2, 2, 3]),
                  st_avg = avg, st_count = length [2, 2, 3::nat]\<rparr>"
      and "avg = (if length [2, 2, 3::nat] dvd sum_list [2, 2, 3]
                  then of_nat (sum_list [2, 2, 3] div length [2, 2, 3::nat])
                  else float_value (py_round2
                         (true_div (sum_list [2, 2, 3]) (length [2, 2, 3::nat]))))"
      unfolding l1 Let_def by (auto simp only: list.simps if_False)
    moreover from this(2) have "avg = 1311673391471657 / 562949953421312"
      by (simp only: d1 if_False avg_7_3)
    ultimately show ?thesis by simp
  qed
  have f': "map_of (content_length_stats m') ''footer''
          = Some \<lparr>st_min = 5, st_max = 6, st_avg = 11 / 2, st_count = 2\<rparr>"
  proof -
    from content_length_stats_per_section [OF c', of "''footer''"]
    obtain avg where
      "map_of (content_length_stats m') ''footer''
         = Some \<lparr>st_min = Min (set [5, 6]), st_max = Max (set [5, 6]),
                  st_avg = avg, st_count = length [5, 6::nat]\<rparr>"
      and "avg = (if length [5, 6::nat] dvd sum_list [5, 6]
                  then of_nat (sum_list [5, 6] div length [5, 6::nat])
                  else float_value (py_round2
                         (true_div (sum_list [5, 6]) (length [5, 6::nat]))))"
      unfolding l2 Let_def by (auto simp only: list.simps if_False)
    moreover from this(2) have "avg = 11 / 2"
      by (simp only: d2 if_False avg_11_2)
    ultimately show ?thesis by simp
  qed
  from c h n c' h' f' show ?thesis by blast
qed

end
